theory Spec2Isabelle
  imports Complex_Main
begin

section \<open>blobfile: the remote object-access core of \<open>ops.py\<close>\<close>

text \<open>
  A shallow embedding of \<open>blobfile/ops.py\<close>. Python exceptions are values of the
  datatype \<open>error\<close>; a function that can raise returns \<open>error + 'a\<close> (\<open>Inl\<close> the
  exception), paired with the state it leaves behind where the state survives the
  exception. Python's unbounded integers are \<open>int\<close> or \<open>nat\<close> (lengths, counters),
  \<open>time.time()\<close> and the back-off delays are \<open>real\<close>, byte strings are \<open>nat list\<close>
  and text is \<open>string\<close>.
\<close>

datatype error =
    AssertionError
  | ValueError
  | ZeroDivisionError
  | FileExistsError
  | FileNotFoundError
  | NotADirectoryError
  | IsADirectoryError
  | OSError
  | Exception string
  | KeyError
  | TransportError

subsection \<open>Constants\<close>

definition EARLY_EXPIRATION_SECONDS :: real where
  "EARLY_EXPIRATION_SECONDS = 5 * 60"

definition CHUNK_SIZE :: nat where
  "CHUNK_SIZE = 2 ^ 20"

definition GOOGLE_CHUNK_SIZE :: nat where
  "GOOGLE_CHUNK_SIZE = 2 ^ 20"

definition AZURE_MAX_CHUNK_SIZE :: nat where
  "AZURE_MAX_CHUNK_SIZE = 4 * 2 ^ 20"

text \<open>
  \<^verbatim>\<open>INVALID_CHARS = (
      set().union(range(0x0, 0x9)).union(range(0xB, 0xE)).union(range(0xE, 0x20)))\<close>
  Python's \<open>range(a, b)\<close> is \<open>[a..<b]\<close>.
\<close>

definition INVALID_CHARS :: "nat set" where
  "INVALID_CHARS = (({} \<union> set [0x0..<0x9]) \<union> set [0xB..<0xE]) \<union> set [0xE..<0x20]"

subsection \<open>The shard alphabet of \<open>listdir\<close>\<close>

text \<open>
  \<^verbatim>\<open>valid_chars = [i for i in range(256) if i not in INVALID_CHARS and i != ord("/")]\<close>
  with \<open>ord("/") = 47\<close>.
\<close>

definition valid_chars :: "nat list" where
  "valid_chars = filter (\<lambda>i. i \<notin> INVALID_CHARS \<and> i \<noteq> 47) [0..<256]"

text \<open>\<open>itertools.product(xs, repeat=n)\<close>: the rightmost position advances fastest.\<close>

fun product_repeat :: "'a list \<Rightarrow> nat \<Rightarrow> 'a list list" where
  "product_repeat xs 0 = [[]]"
| "product_repeat xs (Suc n) = concat (map (\<lambda>x. map ((#) x) (product_repeat xs n)) xs)"

text \<open>
  The tasks \<open>(path, prefix, exact)\<close> that \<open>listdir\<close> enqueues for
  \<open>shard_prefix_length = k\<close>, in the order of the two nested loops; \<open>chr(c)\<close> is
  \<open>char_of c\<close>.
\<close>

definition shard_tasks :: "string \<Rightarrow> nat \<Rightarrow> (string \<times> string \<times> bool) list" where
  "shard_tasks path k =
     concat (map (\<lambda>repeat.
        map (\<lambda>chars. (path, map char_of chars, repeat \<noteq> k)) (product_repeat valid_chars repeat))
      [1..<k + 1])"

subsection \<open>The HTTP executor\<close>

text \<open>
  \<^verbatim>\<open>def _exponential_sleep_generator(initial, maximum, multiplier=2):
      value = initial
      while True:
          yield value
          value *= multiplier
          if value > maximum:
              value = maximum\<close>
  The generator's state is \<open>value\<close>; \<open>sleep_generator_step\<close> is one turn of its loop
  after a \<open>yield\<close>, and \<open>exponential_sleep_generator initial maximum multiplier n\<close> is
  the value of the \<open>n\<close>-th \<open>yield\<close>, counted from 0 as \<open>enumerate\<close> does.
\<close>

definition sleep_generator_step :: "real \<Rightarrow> real \<Rightarrow> real \<Rightarrow> real" where
  "sleep_generator_step maximum multiplier v =
     (let v' = v * multiplier in if v' > maximum then maximum else v')"

fun exponential_sleep_generator :: "real \<Rightarrow> real \<Rightarrow> real \<Rightarrow> nat \<Rightarrow> real" where
  "exponential_sleep_generator initial maximum multiplier 0 = initial"
| "exponential_sleep_generator initial maximum multiplier (Suc n) =
     sleep_generator_step maximum multiplier
       (exponential_sleep_generator initial maximum multiplier n)"

text \<open>
  What one call of \<open>_get_http_pool().request(...)\<close> does: it returns a response with
  a status, raises one of the three urllib3 exceptions that \<open>_execute_request\<close>
  catches, or raises something else, which \<open>_execute_request\<close> lets through.
\<close>

datatype outcome =
    Response nat
  | ConnectTimeoutError
  | ReadTimeoutError
  | ProtocolError
  | OtherException

text \<open>What the executor did besides returning: the delays slept, in order, and the
  delays reported through \<open>_log_callback\<close>.\<close>

record exec_trace =
  slept :: "real list"
  logged :: "real list"

definition retry_statuses :: "nat list" where
  "retry_statuses = [429, 500, 502, 503, 504]"

text \<open>
  \<open>_execute_request\<close>: the transport's answers to the successive attempts are the
  list; \<open>attempt\<close> and \<open>backoff\<close> are the loop variables of
  \<open>for attempt, backoff in enumerate(_exponential_sleep_generator(0.1, maximum=60.0))\<close>.
  The loop has no bound: when the answers run out while it is still retrying, the
  call has not returned (\<open>None\<close>).
\<close>

fun execute_request_loop ::
  "nat list \<Rightarrow> nat \<Rightarrow> real \<Rightarrow> outcome list \<Rightarrow> exec_trace \<Rightarrow> ((error + nat) \<times> exec_trace) option"
where
  "execute_request_loop rs attempt backoff [] tr = None"
| "execute_request_loop rs attempt backoff (out # outs) tr =
     (let again = execute_request_loop rs (attempt + 1) (sleep_generator_step 60 2 backoff) outs
                    \<lparr>slept = slept tr @ [backoff],
                     logged = (if attempt \<ge> 3 then logged tr @ [backoff] else logged tr)\<rparr>
      in case out of
           Response st \<Rightarrow> if st \<in> set rs then again else Some (Inr st, tr)
         | ConnectTimeoutError \<Rightarrow> again
         | ReadTimeoutError \<Rightarrow> again
         | ProtocolError \<Rightarrow> again
         | OtherException \<Rightarrow> Some (Inl TransportError, tr))"

definition execute_request :: "outcome list \<Rightarrow> ((error + nat) \<times> exec_trace) option" where
  "execute_request outs =
     execute_request_loop retry_statuses 0 (1 / 10) outs \<lparr>slept = [], logged = []\<rparr>"

text \<open>The attempts the claim calls transient failures, and what a final attempt gives.\<close>

fun transient :: "outcome \<Rightarrow> bool" where
  "transient (Response st) = (st \<in> {429, 500, 502, 503, 504})"
| "transient ConnectTimeoutError = True"
| "transient ReadTimeoutError = True"
| "transient ProtocolError = True"
| "transient OtherException = False"

fun final_result :: "outcome \<Rightarrow> error + nat" where
  "final_result (Response st) = Inr st"
| "final_result out = Inl TransportError"

subsection \<open>The token manager\<close>

text \<open>
  \<open>TokenManager\<close>: the dictionary \<open>_tokens\<close> and the single field \<open>_expiration\<close>;
  \<open>__init__\<close> gives the empty manager. The lock is not modelled: calls are taken one
  after the other.

  \<open>time.time()\<close> and the expirations are Python floats. A float is taken as the real
  number it denotes, and comparing two floats is comparing those numbers. Adding
  two floats rounds, so the sum \<open>now + EARLY_EXPIRATION_SECONDS\<close> is not the sum of
  the reals: it enters as the parameter \<open>add\<close>, the addition of floats, of which
  nothing is assumed.
\<close>

record 'tok token_manager =
  tokens :: "string \<rightharpoonup> 'tok"
  expiration :: "real option"

definition token_manager_init :: "'tok token_manager" where
  "token_manager_init = \<lparr>tokens = Map.empty, expiration = None\<rparr>"

text \<open>
  The first statement of \<open>get_token\<close>:
  \<^verbatim>\<open>if (self._expiration is None
          or (now + EARLY_EXPIRATION_SECONDS) > self._expiration):
      if key in self._tokens:
          del self._tokens[key]\<close>
\<close>

definition expire_slot ::
  "(real \<Rightarrow> real \<Rightarrow> real) \<Rightarrow> real \<Rightarrow> string \<Rightarrow> 'tok token_manager \<Rightarrow> 'tok token_manager"
where
  "expire_slot add now key tm =
     (if (case expiration tm of None \<Rightarrow> True
          | Some e \<Rightarrow> add now EARLY_EXPIRATION_SECONDS > e)
      then (if key \<in> dom (tokens tm) then tm\<lparr>tokens := (tokens tm)(key := None)\<rparr> else tm)
      else tm)"

text \<open>
  The second statement and the return:
  \<^verbatim>\<open>if key not in self._tokens:
      self._tokens[key], self._expiration = self._get_token_fn(key)
  return self._tokens[key]\<close>
  The loader \<open>_get_token_fn\<close> returns a token and its expiration or raises; nothing is
  assigned when it raises. The third component of the result lists the keys the
  loader was called with during the call: empty when the token came from the cache.
\<close>

definition load_slot ::
  "(string \<Rightarrow> error + 'tok \<times> real) \<Rightarrow> string \<Rightarrow> 'tok token_manager
     \<Rightarrow> (error + 'tok) \<times> 'tok token_manager \<times> string list" where
  "load_slot get_token_fn key tm =
     (case tokens tm key of
        None \<Rightarrow>
          (case get_token_fn key of
             Inl err \<Rightarrow> (Inl err, tm, [key])
           | Inr (tok, e) \<Rightarrow>
               (Inr tok, tm\<lparr>tokens := (tokens tm)(key \<mapsto> tok), expiration := Some e\<rparr>, [key]))
      | Some tok \<Rightarrow> (Inr tok, tm, []))"

definition get_token ::
  "(real \<Rightarrow> real \<Rightarrow> real) \<Rightarrow> (string \<Rightarrow> error + 'tok \<times> real) \<Rightarrow> real \<Rightarrow> string
     \<Rightarrow> 'tok token_manager \<Rightarrow> (error + 'tok) \<times> 'tok token_manager \<times> string list" where
  "get_token add get_token_fn now key tm =
     load_slot get_token_fn key (expire_slot add now key tm)"

text \<open>
  A sequence of calls on one manager, for any keys. Each call has its clock reading,
  its key and what the loader would answer at that moment. Beside the manager the
  run keeps two things that the manager itself does not store: for every key, the
  expiration that the loader returned together with the token last loaded for that
  key (\<open>recorded\<close>), and the key of the most recent load that succeeded (\<open>latest\<close>).
\<close>

record 'tok call =
  call_now :: real
  call_key :: string
  call_loader :: "string \<Rightarrow> error + 'tok \<times> real"

record 'tok managed =
  manager :: "'tok token_manager"
  recorded :: "string \<rightharpoonup> real"
  latest :: "string option"

definition managed_init :: "'tok managed" where
  "managed_init = \<lparr>manager = token_manager_init, recorded = Map.empty, latest = None\<rparr>"

definition after_call ::
  "'tok managed \<Rightarrow> 'tok token_manager \<Rightarrow> string \<Rightarrow> (string \<Rightarrow> error + 'tok \<times> real)
     \<Rightarrow> string list \<Rightarrow> 'tok managed" where
  "after_call m tm' key get_token_fn loader_calls =
     (if loader_calls = [] then m\<lparr>manager := tm'\<rparr>
      else (case get_token_fn key of
              Inl err \<Rightarrow> m\<lparr>manager := tm'\<rparr>
            | Inr (tok, e) \<Rightarrow>
                \<lparr>manager = tm', recorded = (recorded m)(key \<mapsto> e), latest = Some key\<rparr>))"

fun run_calls ::
  "(real \<Rightarrow> real \<Rightarrow> real) \<Rightarrow> 'tok call list \<Rightarrow> 'tok managed \<Rightarrow> 'tok managed" where
  "run_calls add [] m = m"
| "run_calls add (c # cs) m =
     (case get_token add (call_loader c) (call_now c) (call_key c) (manager m) of
        (res, tm', loader_calls) \<Rightarrow>
          run_calls add cs (after_call m tm' (call_key c) (call_loader c) loader_calls))"

text \<open>A loader that answers every key with the same token and expiration.\<close>

definition const_loader :: "'tok \<Rightarrow> real \<Rightarrow> string \<Rightarrow> error + 'tok \<times> real" where
  "const_loader tok e key = Inr (tok, e)"

text \<open>
  For concrete runs: on floats that are whole numbers of moderate size, as are all
  those of the concrete runs below, the sum of two floats is the sum of the numbers,
  without rounding.
\<close>

definition whole_add :: "real \<Rightarrow> real \<Rightarrow> real" where
  "whole_add a b = a + b"

text \<open>
  What every run keeps true: once a load has succeeded, the manager's expiration is
  the one recorded for the key loaded last.
\<close>

definition expiration_of_latest :: "'tok managed \<Rightarrow> bool" where
  "expiration_of_latest m =
     (case latest m of
        None \<Rightarrow> True
      | Some j \<Rightarrow> (\<exists>e. expiration (manager m) = Some e \<and> recorded m j = Some e))"

subsection \<open>Requests and responses\<close>

text \<open>
  \<open>common.Request\<close> has the fields \<open>method\<close> (here \<open>http_method\<close>), \<open>url\<close>, \<open>params\<close>, \<open>headers\<close> and
  \<open>data\<close>. The modules \<open>google\<close> and \<open>azure\<close> that build the URLs are not part of
  the source at hand, so \<open>google.build_url(template, **kw)\<close> is kept as the term
  \<open>GoogleUrl template kw\<close> and \<open>azure.build_url(account, template, **kw)\<close> as
  \<open>AzureUrl account template kw\<close>. Header values that the source formats from
  numbers or digests are kept as terms as well: \<open>ContentRange start end total\<close> is
  \<open>f"bytes {start}-{end}/{total_size}"\<close> with \<open>None\<close> for \<open>"*"\<close>, \<open>ContentRangeAny total\<close>
  is \<open>f"bytes */{total_size}"\<close>, \<open>Decimal n\<close> is \<open>str(n)\<close>, \<open>RangeFrom n\<close> is
  \<open>_calc_range(start=n)\<close>, that is \<open>f"bytes={n}-"\<close>, and \<open>Md5Base64 bs\<close> is the base64
  text of the MD5 digest of the bytes \<open>bs\<close>.
\<close>

datatype url =
    GoogleUrl string "(string \<times> string) list"
  | AzureUrl string string "(string \<times> string) list"
  | Location string

datatype header_value =
    Text string
  | Decimal int
  | ContentRange int int "int option"
  | ContentRangeAny int
  | RangeFrom int
  | Md5Base64 "nat list"
  | CopySource url

datatype request_body = NoData | Bytes "nat list" | Form "(string \<times> string) list"

record request =
  http_method :: string
  url :: url
  params :: "(string \<times> string) list"
  headers :: "(string \<times> header_value) list"
  data :: request_body

text \<open>
  What the source reads from a response: the status, headers by name, scalar members
  of the decoded JSON or XML body by name, and the two name lists of a listing,
  each absent (\<open>None\<close>) when the body has no such member (\<open>items\<close> and \<open>prefixes\<close> for
  Google, \<open>Blobs.Blob\<close> and \<open>Blobs.BlobPrefix\<close> for Azure).
\<close>

record response =
  status :: nat
  resp_headers :: "string \<rightharpoonup> string"
  members :: "string \<rightharpoonup> string"
  listed_items :: "string list option"
  listed_prefixes :: "string list option"

text \<open>
  \<open>_execute_google_api_request\<close> and \<open>_execute_azure_api_request\<close> sign the request
  and hand it to \<open>_execute_request\<close>. Seen from their callers each is a call that
  gives the response of the last attempt, or raises, and changes the state \<open>'w\<close> of
  the world behind the network; the retries inside are those of
  \<open>execute_request\<close> above.
\<close>

type_synonym 'w http = "request \<Rightarrow> 'w \<Rightarrow> (error + response) \<times> 'w"

subsection \<open>Streaming write files\<close>

text \<open>
  \<open>_StreamingWriteFile\<close>: \<open>_offset\<close>, \<open>_buf\<close>, \<open>_chunk_size\<close> and the \<open>closed\<close> flag of
  \<open>io.IOBase\<close>. \<open>sub\<close> is what a subclass adds, together with the world its requests
  change. The subclasses' \<open>_upload_chunk\<close> read \<open>_offset\<close> and \<open>len(_buf)\<close> and assign
  neither, so the hook gets both as arguments and returns the new \<open>sub\<close> only,
  with the exception it raised, if any.
\<close>

record 'x streaming_write_file =
  offset :: nat
  buf :: "nat list"
  chunk_size :: nat
  closed :: bool
  sub :: 'x

type_synonym 'x upload_chunk = "'x \<Rightarrow> nat \<Rightarrow> nat \<Rightarrow> nat list \<Rightarrow> bool \<Rightarrow> error option \<times> 'x"

definition streaming_write_file_init :: "nat \<Rightarrow> 'x \<Rightarrow> 'x streaming_write_file" where
  "streaming_write_file_init cs x = \<lparr>offset = 0, buf = [], chunk_size = cs, closed = False, sub = x\<rparr>"

text \<open>
  \<^verbatim>\<open>def _upload_buf(self, finalize=False):
      if finalize:
          size = len(self._buf)
      else:
          size = (len(self._buf) // self._chunk_size) * self._chunk_size
          assert size > 0
      chunk = self._buf[:size]
      self._buf = self._buf[size:]

      self._upload_chunk(chunk, finalize)
      self._offset += len(chunk)\<close>
\<close>

definition upload_size :: "bool \<Rightarrow> 'x streaming_write_file \<Rightarrow> nat" where
  "upload_size finalize f =
     (if finalize then length (buf f) else (length (buf f) div chunk_size f) * chunk_size f)"

definition upload_buf ::
  "'x upload_chunk \<Rightarrow> bool \<Rightarrow> 'x streaming_write_file \<Rightarrow> error option \<times> 'x streaming_write_file"
where
  "upload_buf upload_chunk finalize f =
     (if \<not> finalize \<and> chunk_size f = 0 then (Some ZeroDivisionError, f)
      else if \<not> finalize \<and> \<not> upload_size finalize f > 0 then (Some AssertionError, f)
      else
        let size = upload_size finalize f;
            chunk = take size (buf f);
            f1 = f\<lparr>buf := drop size (buf f)\<rparr>
        in case upload_chunk (sub f1) (offset f1) (length (buf f1)) chunk finalize of
             (Some err, x) \<Rightarrow> (Some err, f1\<lparr>sub := x\<rparr>)
           | (None, x) \<Rightarrow> (None, f1\<lparr>sub := x, offset := offset f1 + length chunk\<rparr>))"

text \<open>
  \<^verbatim>\<open>def close(self):
      if self.closed:
          return
      self._upload_buf(finalize=True)
      super().close()\<close>
\<close>

definition close ::
  "'x upload_chunk \<Rightarrow> 'x streaming_write_file \<Rightarrow> error option \<times> 'x streaming_write_file" where
  "close upload_chunk f =
     (if closed f then (None, f)
      else case upload_buf upload_chunk True f of
             (Some err, f') \<Rightarrow> (Some err, f')
           | (None, f') \<Rightarrow> (None, f'\<lparr>closed := True\<rparr>))"

lemma upload_buf_shrinks:
  "length (buf f) > chunk_size f \<Longrightarrow> upload_buf upload_chunk False f = (None, f') \<Longrightarrow>
   length (buf f') < length (buf f)"
proof -
  assume big: "length (buf f) > chunk_size f" and up: "upload_buf upload_chunk False f = (None, f')"
  have cs: "chunk_size f \<noteq> 0" using up by (cases "chunk_size f = 0") (simp_all add: upload_buf_def)
  then have "length (buf f) div chunk_size f > 0" using big by (simp add: div_greater_zero_iff)
  then have pos: "upload_size False f > 0" using cs by (simp add: upload_size_def)
  have "buf f' = drop (upload_size False f) (buf f)"
    using up cs pos by (auto simp: upload_buf_def Let_def split: prod.splits option.splits)
  then show ?thesis using pos big by simp
qed

text \<open>
  \<^verbatim>\<open>def write(self, b):
      self._buf += b
      while len(self._buf) > self._chunk_size:
          self._upload_buf()
      return len(b)\<close>
  The result is the exception raised or the number returned. (\<open>write\<close> is a keyword
  of Isabelle: the function is \<open>write_stream\<close>.)
\<close>

function write_loop ::
  "'x upload_chunk \<Rightarrow> 'x streaming_write_file \<Rightarrow> error option \<times> 'x streaming_write_file" where
  "write_loop upload_chunk f =
     (if length (buf f) > chunk_size f
      then (case upload_buf upload_chunk False f of
              (Some err, f') \<Rightarrow> (Some err, f')
            | (None, f') \<Rightarrow> write_loop upload_chunk f')
      else (None, f))"
  by pat_completeness auto
termination
  by (relation "measure (\<lambda>(u, f). length (buf f))") (auto dest: upload_buf_shrinks [OF _ sym])

definition write_stream ::
  "'x upload_chunk \<Rightarrow> nat list \<Rightarrow> 'x streaming_write_file \<Rightarrow> (error + nat) \<times> 'x streaming_write_file"
where
  "write_stream upload_chunk b f =
     (case write_loop upload_chunk (f\<lparr>buf := buf f @ b\<rparr>) of
        (Some err, f') \<Rightarrow> (Inl err, f')
      | (None, f') \<Rightarrow> (Inr (length b), f'))"

text \<open>
  \<open>_GoogleStreamingWriteFile\<close> adds the session URL \<open>_upload_url\<close>. Its
  \<open>_upload_chunk\<close> sends one PUT to the session and asserts on the status: 200 or 201
  for the final chunk, 308 otherwise. (\<open>Request\<close> is built without \<open>params\<close>: the
  empty list stands for \<open>None\<close>.)
\<close>

record 'w google_writer =
  upload_url :: string
  google_world :: 'w

definition google_upload_chunk :: "'w http \<Rightarrow> 'w google_writer upload_chunk" where
  "google_upload_chunk http x ofs buflen chunk finalize =
     (let start = int ofs;
          end = int ofs + int (length chunk) - 1;
          total_size = (if finalize then Some (int ofs + int (length chunk)) else None)
      in if finalize \<and> buflen \<noteq> 0 then (Some AssertionError, x)
         else
           let content_range =
                 (if length chunk = 0 \<and> finalize
                  then ContentRangeAny (int ofs + int (length chunk))
                  else ContentRange start end total_size);
               req = \<lparr>http_method = ''PUT'', url = Location (upload_url x), params = [],
                      headers = [(''Content-Type'', Text ''application/octet-stream''),
                                 (''Content-Range'', content_range)],
                      data = Bytes chunk\<rparr>
           in case http req (google_world x) of
                (Inl err, w) \<Rightarrow> (Some err, x\<lparr>google_world := w\<rparr>)
              | (Inr resp, w) \<Rightarrow>
                  (if finalize
                   then (if status resp \<in> {200, 201} then None else Some AssertionError,
                         x\<lparr>google_world := w\<rparr>)
                   else (if status resp = 308 then None else Some AssertionError,
                         x\<lparr>google_world := w\<rparr>)))"

text \<open>
  \<open>_AzureStreamingWriteFile\<close> adds the blob URL \<open>_url\<close> and the running digest
  \<open>_md5\<close>, kept as the bytes fed to it so far. Its \<open>_upload_chunk\<close>:
  \<^verbatim>\<open>if len(chunk) == 0:
      return
  start = 0
  while start < len(chunk):
      end = start + AZURE_MAX_CHUNK_SIZE
      data = chunk[start:end]
      self._md5.update(data)
      req = Request(url=self._url, method="PUT", params=dict(comp="appendblock"),
          data=data,
          headers={"x-ms-blob-condition-appendpos": str(self._offset + start)})
      with _execute_azure_api_request(req) as resp:
          assert resp.status in (201, 412), f"unexpected status {resp.status}"
      req = Request(url=self._url, method="PUT", params=dict(comp="properties"),
          headers={"x-ms-blob-content-md5":
                   base64.b64encode(self._md5.digest()).decode("utf8")})
      with _execute_azure_api_request(req) as resp:
          assert resp.status == 200, f"unexpected status {resp.status}"
      start += AZURE_MAX_CHUNK_SIZE\<close>
\<close>

record 'w azure_writer =
  blob_url :: url
  md5 :: "nat list"
  azure_world :: 'w

definition appendblock_request :: "url \<Rightarrow> nat list \<Rightarrow> nat \<Rightarrow> request" where
  "appendblock_request u bytes pos =
     \<lparr>http_method = ''PUT'', url = u, params = [(''comp'', ''appendblock'')],
      headers = [(''x-ms-blob-condition-appendpos'', Decimal (int pos))],
      data = Bytes bytes\<rparr>"

definition properties_request :: "url \<Rightarrow> nat list \<Rightarrow> request" where
  "properties_request u digested =
     \<lparr>http_method = ''PUT'', url = u, params = [(''comp'', ''properties'')],
      headers = [(''x-ms-blob-content-md5'', Md5Base64 digested)],
      data = NoData\<rparr>"

function azure_upload_loop ::
  "'w http \<Rightarrow> nat \<Rightarrow> nat list \<Rightarrow> nat \<Rightarrow> 'w azure_writer \<Rightarrow> error option \<times> 'w azure_writer"
where
  "azure_upload_loop http ofs chunk start x =
     (if start < length chunk then
        let end = start + AZURE_MAX_CHUNK_SIZE;
            bytes = take (end - start) (drop start chunk);
            x1 = x\<lparr>md5 := md5 x @ bytes\<rparr>
        in case http (appendblock_request (blob_url x1) bytes (ofs + start)) (azure_world x1) of
             (Inl err, w) \<Rightarrow> (Some err, x1\<lparr>azure_world := w\<rparr>)
           | (Inr resp, w) \<Rightarrow>
               if status resp \<notin> {201, 412} then (Some AssertionError, x1\<lparr>azure_world := w\<rparr>)
               else
                 (case http (properties_request (blob_url x1) (md5 x1)) w of
                    (Inl err, w') \<Rightarrow> (Some err, x1\<lparr>azure_world := w'\<rparr>)
                  | (Inr resp', w') \<Rightarrow>
                      if status resp' \<noteq> 200 then (Some AssertionError, x1\<lparr>azure_world := w'\<rparr>)
                      else azure_upload_loop http ofs chunk (start + AZURE_MAX_CHUNK_SIZE)
                             (x1\<lparr>azure_world := w'\<rparr>))
      else (None, x))"
  by pat_completeness auto
termination
  by (relation "measure (\<lambda>(h, ofs, chunk, start, x). length chunk - start)")
     (auto simp: AZURE_MAX_CHUNK_SIZE_def)

definition azure_upload_chunk :: "'w http \<Rightarrow> 'w azure_writer upload_chunk" where
  "azure_upload_chunk http x ofs buflen chunk finalize =
     (if length chunk = 0 then (None, x) else azure_upload_loop http ofs chunk 0 x)"

text \<open>
  A caller's use of one write stream: calls of \<open>write\<close> and \<open>close\<close> in some order.
  The run keeps, beside the file, the number of bytes accepted from the caller (the
  sum of what the calls of \<open>write\<close> returned) and whether some call raised.
\<close>

datatype write_op = Write "nat list" | Close

fun run_write_ops ::
  "'x upload_chunk \<Rightarrow> write_op list \<Rightarrow> 'x streaming_write_file \<times> nat \<times> bool
     \<Rightarrow> 'x streaming_write_file \<times> nat \<times> bool" where
  "run_write_ops u [] st = st"
| "run_write_ops u (Write b # ops) (f, accepted, raised) =
     (case write_stream u b f of
        (Inl err, f') \<Rightarrow> run_write_ops u ops (f', accepted, True)
      | (Inr n, f') \<Rightarrow> run_write_ops u ops (f', accepted + n, raised))"
| "run_write_ops u (Close # ops) (f, accepted, raised) =
     (case close u f of
        (Some err, f') \<Rightarrow> run_write_ops u ops (f', accepted, True)
      | (None, f') \<Rightarrow> run_write_ops u ops (f', accepted, raised))"

text \<open>
  Two servers for concrete runs; the world is the list of requests received.
  \<open>http_answering st\<close> answers every request with the status \<open>st\<close>.
  \<open>http_append_conflict\<close> is an Azure endpoint whose blob another writer has
  advanced: it answers every \<open>appendblock\<close> with 412 and every other request with
  200.
\<close>

definition plain_response :: "nat \<Rightarrow> response" where
  "plain_response st =
     \<lparr>status = st, resp_headers = Map.empty, members = Map.empty,
      listed_items = None, listed_prefixes = None\<rparr>"

definition http_answering :: "nat \<Rightarrow> request list http" where
  "http_answering st req w = (Inr (plain_response st), w @ [req])"

definition http_append_conflict :: "request list http" where
  "http_append_conflict req w =
     (Inr (plain_response (if params req = [(''comp'', ''appendblock'')] then 412 else 200)),
      w @ [req])"

text \<open>
  Concrete runs. \<open>lost_chunk_run\<close>: a Google write stream whose session answers 404;
  the caller writes one chunk size of bytes, then one more byte. \<open>conflict_run\<close>: an
  Azure write stream on a blob that another writer has advanced; the caller writes
  three bytes and closes.
\<close>

definition lost_chunk_run ::
  "request list google_writer streaming_write_file \<times> nat \<times> bool" where
  "lost_chunk_run =
     run_write_ops (google_upload_chunk (http_answering 404))
       [Write (replicate 1048576 0), Write [0]]
       (streaming_write_file_init GOOGLE_CHUNK_SIZE
          \<lparr>upload_url = ''session'', google_world = []\<rparr>, 0, False)"

definition conflict_run ::
  "request list azure_writer streaming_write_file \<times> nat \<times> bool" where
  "conflict_run =
     run_write_ops (azure_upload_chunk http_append_conflict)
       [Write [1, 2, 3], Close]
       (streaming_write_file_init AZURE_MAX_CHUNK_SIZE
          \<lparr>blob_url = AzureUrl ''account'' ''/{container}/{blob}''
                         [(''container'', ''container''), (''blob'', ''blob'')],
           md5 = [], azure_world = []\<rparr>, 0, False)"

subsection \<open>Streaming read files\<close>

text \<open>
  \<open>_StreamingReadFile\<close>: \<open>_size\<close>, \<open>_path\<close>, \<open>_offset\<close>, the open body \<open>_f\<close> and the three
  counters (here \<open>rsize\<close>, \<open>rpath\<close>, \<open>roffset\<close>, \<open>body\<close>). The offset is an \<open>int\<close>:
  \<open>seek\<close> can make it negative. An open body is the response of a ranged GET
  (\<open>HttpBody\<close>) or the empty \<open>io.BytesIO()\<close> that \<open>_get_file\<close> returns with a
  \<open>_RangeError\<close> (\<open>EmptyBody\<close>); each carries the position in the remote object of
  the next byte it would give, which the source does not store.
\<close>

datatype body = HttpBody int | EmptyBody int

fun body_position :: "body \<Rightarrow> int" where
  "body_position (HttpBody p) = p"
| "body_position (EmptyBody p) = p"

record streaming_read_file =
  rsize :: int
  rpath :: string
  roffset :: int
  body :: "body option"
  requests :: nat
  failures :: nat
  bytes_read :: nat

definition streaming_read_file_init :: "string \<Rightarrow> int \<Rightarrow> streaming_read_file" where
  "streaming_read_file_init p sz =
     \<lparr>rsize = sz, rpath = p, roffset = 0, body = None, requests = 0, failures = 0, bytes_read = 0\<rparr>"

text \<open>
  What the network does during a read, in the order in which the code meets it:
  the status with which the ranged GET of \<open>_get_file\<close> is answered (after the
  executor's own retries) or an exception of that request; the number of bytes an
  open response has at hand when \<open>self._f.readinto(b)\<close> is called (it gives as many
  of them as fit in \<open>b\<close>; 0 is the end of the response), or an exception there. An
  exception caught by \<open>readinto\<close> leaves the response where it was. When the answers
  run out, or do not fit what the code asks next, the call has not returned
  (\<open>None\<close>).
\<close>

datatype read_event =
    GetStatus nat
  | GetRaises
  | BodyGives nat
  | BodyReadTimeoutError
  | BodyProtocolError
  | BodyRaises

text \<open>
  \<open>_get_file\<close> (the same for Google and Azure but for the URL): 416 gives an empty
  file and a \<open>_RangeError\<close>, 206 the response, any other status fails the assertion.
  The result is the pair the source returns, the flag standing for the
  \<open>_RangeError\<close>.
\<close>

fun get_file :: "int \<Rightarrow> read_event list \<Rightarrow> ((error + body \<times> bool) \<times> read_event list) option" where
  "get_file ofs (GetStatus st # evs) =
     Some (if st = 416 then Inr (EmptyBody ofs, True)
           else if st \<noteq> 206 then Inl AssertionError
           else Inr (HttpBody ofs, False), evs)"
| "get_file ofs (GetRaises # evs) = Some (Inl TransportError, evs)"
| "get_file ofs evs = None"

text \<open>\<open>self._f.readinto(b)\<close> with \<open>len(b) = blen\<close>: the bytes given, or the exception.\<close>

datatype body_result = Gave nat | Caught | Raised

fun body_readinto ::
  "body \<Rightarrow> nat \<Rightarrow> read_event list \<Rightarrow> (body_result \<times> body \<times> read_event list) option" where
  "body_readinto (EmptyBody p) blen evs = Some (Gave 0, EmptyBody p, evs)"
| "body_readinto (HttpBody p) blen (BodyGives k # evs) =
     Some (Gave (min k blen), HttpBody (p + int (min k blen)), evs)"
| "body_readinto (HttpBody p) blen (BodyReadTimeoutError # evs) = Some (Caught, HttpBody p, evs)"
| "body_readinto (HttpBody p) blen (BodyProtocolError # evs) = Some (Caught, HttpBody p, evs)"
| "body_readinto (HttpBody p) blen (BodyRaises # evs) = Some (Raised, HttpBody p, evs)"
| "body_readinto (HttpBody p) blen evs = None"

text \<open>
  One turn of the loop of \<open>readinto\<close>, in two halves. First
  \<^verbatim>\<open>if self._f is None:
      self._f, file_err = self._get_file(self._offset)
      if isinstance(file_err, _RangeError):
          return 0
      self.requests += 1\<close>
  which returns from \<open>readinto\<close> (\<open>Return\<close>) or goes on (\<open>Continue\<close>).
\<close>

datatype 'a turn =
    Return "error + nat" streaming_read_file "read_event list"
  | Continue 'a streaming_read_file "read_event list"

definition ensure_body :: "streaming_read_file \<Rightarrow> read_event list \<Rightarrow> unit turn option" where
  "ensure_body s evs =
     (case body s of
        Some b \<Rightarrow> Some (Continue () s evs)
      | None \<Rightarrow>
          (case get_file (roffset s) evs of
             None \<Rightarrow> None
           | Some (Inl err, evs') \<Rightarrow> Some (Return (Inl err) s evs')
           | Some (Inr (b, range_error), evs') \<Rightarrow>
               if range_error then Some (Return (Inr 0) (s\<lparr>body := Some b\<rparr>) evs')
               else Some (Continue () (s\<lparr>body := Some b, requests := requests s + 1\<rparr>) evs')))"

text \<open>
  Then
  \<^verbatim>\<open>err = None
  try:
      opt_n = self._f.readinto(b)
      assert opt_n is not None, "file is in non-blocking mode"
      n = opt_n
      if n == 0:
          # assume that the connection has died
          self._f.close()
          self._f = None
          err = "failed to read from connection"
      else:
          # only break out if we successfully read at least one byte
          break
  except (urllib3.exceptions.ReadTimeoutError, urllib3.exceptions.ProtocolError) as e:
      err = e\<close>
  which leaves the loop with \<open>n\<close> bytes (\<open>Continue (Some n)\<close>), goes to the retry
  (\<open>Continue None\<close>) or lets an exception through (\<open>Return\<close>). It is called with a body.
\<close>

definition attempt_read ::
  "nat \<Rightarrow> streaming_read_file \<Rightarrow> read_event list \<Rightarrow> nat option turn option" where
  "attempt_read blen s evs =
     (case body s of
        None \<Rightarrow> None
      | Some b \<Rightarrow>
          (case body_readinto b blen evs of
             None \<Rightarrow> None
           | Some (Gave n, b', evs') \<Rightarrow>
               if n = 0 then Some (Continue None (s\<lparr>body := None\<rparr>) evs')
               else Some (Continue (Some n) (s\<lparr>body := Some b'\<rparr>) evs')
           | Some (Caught, b', evs') \<Rightarrow> Some (Continue None (s\<lparr>body := Some b'\<rparr>) evs')
           | Some (Raised, b', evs') \<Rightarrow> Some (Return (Inl TransportError) (s\<lparr>body := Some b'\<rparr>) evs')))"

lemma get_file_consumes:
  "get_file ofs evs = Some (r, evs') \<Longrightarrow> length evs' < length evs"
  by (cases "(ofs, evs)" rule: get_file.cases) auto

lemma body_readinto_consumes:
  "body_readinto (HttpBody p) blen evs = Some (r, b', evs') \<Longrightarrow>
   length evs' < length evs \<and> (\<exists>q. b' = HttpBody q)"
  by (cases "(HttpBody p, blen, evs)" rule: body_readinto.cases) auto

lemma ensure_body_consumes:
  assumes "ensure_body s evs = Some (Continue u s1 evs1)"
  shows "(body s \<noteq> None \<and> s1 = s \<and> evs1 = evs)
         \<or> (body s = None \<and> length evs1 < length evs \<and> (\<exists>q. body s1 = Some (HttpBody q)))"
proof (cases "body s")
  case (Some b)
  with assms show ?thesis by (simp add: ensure_body_def)
next
  case None
  then obtain r evs' where g: "get_file (roffset s) evs = Some (r, evs')"
    using assms by (cases "get_file (roffset s) evs") (auto simp: ensure_body_def)
  have "length evs' < length evs" using get_file_consumes [OF g] .
  moreover have "evs1 = evs' \<and> (\<exists>q. body s1 = Some (HttpBody q))"
    using assms None g
    by (cases "(roffset s, evs)" rule: get_file.cases)
       (auto simp: ensure_body_def split: if_splits)
  ultimately show ?thesis using None by simp
qed

lemma retry_consumes:
  assumes "ensure_body s evs = Some (Continue u s1 evs1)"
    and "attempt_read blen s1 evs1 = Some (Continue None s2 evs2)"
  shows "2 * length evs2 + (case body s2 of Some (EmptyBody p) \<Rightarrow> 1 | _ \<Rightarrow> 0)
         < 2 * length evs + (case body s of Some (EmptyBody p) \<Rightarrow> 1 | _ \<Rightarrow> 0)"
proof -
  obtain b where b: "body s1 = Some b" using assms(2)
    by (cases "body s1") (auto simp: attempt_read_def)
  show ?thesis
  proof (cases b)
    case (EmptyBody p)
    then have "evs2 = evs1 \<and> body s2 = None" using assms(2) b
      by (auto simp: attempt_read_def split: if_splits)
    then show ?thesis using ensure_body_consumes [OF assms(1)] b EmptyBody by auto
  next
    case (HttpBody p)
    obtain r b' where br: "body_readinto (HttpBody p) blen evs1 = Some (r, b', evs2)"
      using assms(2) b HttpBody
      by (cases "body_readinto (HttpBody p) blen evs1")
         (auto simp: attempt_read_def split: body_result.splits if_splits)
    from body_readinto_consumes [OF br] obtain q where
      q: "length evs2 < length evs1" "b' = HttpBody q" by blast
    have "body s2 = None \<or> body s2 = Some (HttpBody q)"
      using assms(2) b HttpBody br q
      by (auto simp: attempt_read_def split: body_result.splits if_splits)
    then show ?thesis using ensure_body_consumes [OF assms(1)] q by auto
  qed
qed

text \<open>
  The loop of \<open>readinto\<close>,
  \<open>for attempt, backoff in enumerate(_exponential_sleep_generator(0.1, maximum=60.0))\<close>,
  with what follows it when it is left by \<open>break\<close>:
  \<^verbatim>\<open>    self.failures += 1
      if attempt >= 3:
          _log_callback(...)
      time.sleep(backoff)
  self._offset += n
  self.bytes_read += n
  return n\<close>
\<close>

function readinto_loop ::
  "nat \<Rightarrow> nat \<Rightarrow> real \<Rightarrow> streaming_read_file \<Rightarrow> read_event list \<Rightarrow> exec_trace
     \<Rightarrow> ((error + nat) \<times> streaming_read_file \<times> read_event list \<times> exec_trace) option" where
  "readinto_loop blen attempt backoff s evs tr =
     (case ensure_body s evs of
        None \<Rightarrow> None
      | Some (Return r s1 evs1) \<Rightarrow> Some (r, s1, evs1, tr)
      | Some (Continue u s1 evs1) \<Rightarrow>
          (case attempt_read blen s1 evs1 of
             None \<Rightarrow> None
           | Some (Return r s2 evs2) \<Rightarrow> Some (r, s2, evs2, tr)
           | Some (Continue (Some n) s2 evs2) \<Rightarrow>
               Some (Inr n,
                     s2\<lparr>roffset := roffset s2 + int n, bytes_read := bytes_read s2 + n\<rparr>,
                     evs2, tr)
           | Some (Continue None s2 evs2) \<Rightarrow>
               readinto_loop blen (attempt + 1) (sleep_generator_step 60 2 backoff)
                 (s2\<lparr>failures := failures s2 + 1\<rparr>) evs2
                 \<lparr>slept = slept tr @ [backoff],
                  logged = (if attempt \<ge> 3 then logged tr @ [backoff] else logged tr)\<rparr>))"
  by pat_completeness auto
termination
proof (relation "measure (\<lambda>(blen, attempt, backoff, s, evs, tr).
         2 * length evs + (case body s of Some (EmptyBody p) \<Rightarrow> 1 | _ \<Rightarrow> 0))", goal_cases)
  case 1
  show ?case by simp
next
  case (2 blen attempt backoff s evs tr x2 x22 x23 x24 x2a x22a x23a x24a)
  then show ?case
    using retry_consumes [of s evs x22 x23 x24 blen x23a x24a] by simp
qed

text \<open>
  \<^verbatim>\<open>def readinto(self, b):
      if self._size == self._offset:
          return 0
      ...\<close>
  The result: what \<open>readinto\<close> returned or raised, the file, the answers of the
  network not yet used, and the delays slept.
\<close>

definition readinto ::
  "nat \<Rightarrow> streaming_read_file \<Rightarrow> read_event list
     \<Rightarrow> ((error + nat) \<times> streaming_read_file \<times> read_event list \<times> exec_trace) option" where
  "readinto blen s evs =
     (if rsize s = roffset s then Some (Inr 0, s, evs, \<lparr>slept = [], logged = []\<rparr>)
      else readinto_loop blen 0 (1 / 10) s evs \<lparr>slept = [], logged = []\<rparr>)"

text \<open>
  \<^verbatim>\<open>def seek(self, offset, whence=io.SEEK_SET):
      if whence == io.SEEK_SET:
          new_offset = offset
      elif whence == io.SEEK_CUR:
          new_offset = self._offset + offset
      elif whence == io.SEEK_END:
          new_offset = self._size + offset
      else:
          raise ValueError(f"invalid whence")
      if new_offset != self._offset:
          self._offset = new_offset
          self._f = None
      return self._offset\<close>
\<close>

definition SEEK_SET :: int where "SEEK_SET = 0"
definition SEEK_CUR :: int where "SEEK_CUR = 1"
definition SEEK_END :: int where "SEEK_END = 2"

definition seek ::
  "int \<Rightarrow> int \<Rightarrow> streaming_read_file \<Rightarrow> (error + int) \<times> streaming_read_file" where
  "seek ofs whence s =
     (if whence \<noteq> SEEK_SET \<and> whence \<noteq> SEEK_CUR \<and> whence \<noteq> SEEK_END then (Inl ValueError, s)
      else
        let new_offset = (if whence = SEEK_SET then ofs
                          else if whence = SEEK_CUR then roffset s + ofs
                          else rsize s + ofs);
            s' = (if new_offset \<noteq> roffset s then s\<lparr>roffset := new_offset, body := None\<rparr> else s)
        in (Inr (roffset s'), s'))"

text \<open>
  A caller's use of one read stream: calls of \<open>readinto\<close> (with a buffer of the given
  length) and of \<open>seek\<close>, in some order, against the answers of the network. The run
  ends with the file and the answers left, or has not returned. Beside them it keeps
  a flag that stays true as long as every \<open>seek\<close> asked for a position from 0 to the
  size and no \<open>readinto\<close> was given bytes lying past the size.
\<close>

datatype read_op = Readinto nat | Seek int int

fun run_read_ops ::
  "read_op list \<Rightarrow> streaming_read_file \<times> read_event list \<times> bool
     \<Rightarrow> (streaming_read_file \<times> read_event list \<times> bool) option" where
  "run_read_ops [] st = Some st"
| "run_read_ops (Readinto blen # ops) (s, evs, in_file) =
     (case readinto blen s evs of
        None \<Rightarrow> None
      | Some (Inl err, s', evs', tr) \<Rightarrow> run_read_ops ops (s', evs', in_file)
      | Some (Inr n, s', evs', tr) \<Rightarrow>
          run_read_ops ops (s', evs', in_file \<and> roffset s + int n \<le> rsize s))"
| "run_read_ops (Seek ofs whence # ops) (s, evs, in_file) =
     (case seek ofs whence s of
        (Inl err, s') \<Rightarrow> run_read_ops ops (s', evs, in_file)
      | (Inr new_offset, s') \<Rightarrow>
          run_read_ops ops (s', evs, in_file \<and> 0 \<le> new_offset \<and> new_offset \<le> rsize s))"

text \<open>The body, when there is one, stands at the offset.\<close>

definition body_at_offset :: "streaming_read_file \<Rightarrow> bool" where
  "body_at_offset s = (case body s of None \<Rightarrow> True | Some b \<Rightarrow> body_position b = roffset s)"

subsection \<open>The world of the path operations\<close>

text \<open>
  The path operations talk to the two clouds and to the local file system. What they
  reach outside \<open>ops.py\<close> is gathered in \<open>env\<close>: the two request functions (see
  \<open>http\<close> above), \<open>urllib.parse.urlparse(path).scheme\<close>, the functions \<open>split_url\<close> of
  the modules \<open>google\<close> and \<open>azure\<close>, which are not part of the source at hand,
  Python's \<open>int\<close> on a text, and the calls of \<open>os\<close>, \<open>os.path\<close> and \<open>io.FileIO\<close>. They
  are parameters: nothing is assumed about them but their types. The state of the
  world is \<open>net\<close>, and \<open>sent\<close> lists the requests sent so far, in order.
\<close>

record 'w world =
  net :: 'w
  sent :: "request list"

record 'w env =
  http_google :: "'w http"
  http_azure :: "'w http"
  url_scheme :: "string \<Rightarrow> string"
  google_split_url :: "string \<Rightarrow> string \<times> string"
  azure_split_url :: "string \<Rightarrow> string \<times> string \<times> string"
  int_of_text :: "string \<Rightarrow> error + int"
  os_path_exists :: "string \<Rightarrow> 'w \<Rightarrow> bool"
  os_path_isdir :: "string \<Rightarrow> 'w \<Rightarrow> bool"
  os_listdir :: "string \<Rightarrow> 'w \<Rightarrow> error + string list"
  os_rmdir :: "string \<Rightarrow> 'w \<Rightarrow> error option \<times> 'w"
  os_remove :: "string \<Rightarrow> 'w \<Rightarrow> error option \<times> 'w"
  file_io :: "string \<Rightarrow> string \<Rightarrow> 'w \<Rightarrow> (error + nat) \<times> 'w"

definition execute_google_api_request ::
  "'w env \<Rightarrow> request \<Rightarrow> 'w world \<Rightarrow> (error + response) \<times> 'w world" where
  "execute_google_api_request env req w =
     (case http_google env req (net w) of
        (res, n) \<Rightarrow> (res, w\<lparr>net := n, sent := sent w @ [req]\<rparr>))"

definition execute_azure_api_request ::
  "'w env \<Rightarrow> request \<Rightarrow> 'w world \<Rightarrow> (error + response) \<times> 'w world" where
  "execute_azure_api_request env req w =
     (case http_azure env req (net w) of
        (res, n) \<Rightarrow> (res, w\<lparr>net := n, sent := sent w @ [req]\<rparr>))"

definition is_google_path :: "'w env \<Rightarrow> string \<Rightarrow> bool" where
  "is_google_path env path = (url_scheme env path = ''gs'')"

definition is_azure_path :: "'w env \<Rightarrow> string \<Rightarrow> bool" where
  "is_azure_path env path = (url_scheme env path = ''as'')"

definition is_local_path :: "'w env \<Rightarrow> string \<Rightarrow> bool" where
  "is_local_path env path = (\<not> is_google_path env path \<and> \<not> is_azure_path env path)"

text \<open>\<open>path.endswith("/")\<close>, \<open>if not path.endswith("/"): path += "/"\<close> and \<open>_strip_slash\<close>.\<close>

definition ends_with_slash :: "string \<Rightarrow> bool" where
  "ends_with_slash path = (path \<noteq> [] \<and> last path = CHR ''/'')"

definition add_slash :: "string \<Rightarrow> string" where
  "add_slash path = (if \<not> ends_with_slash path then path @ ''/'' else path)"

definition strip_slash :: "string \<Rightarrow> string" where
  "strip_slash path = (if ends_with_slash path then butlast path else path)"

definition simple_request :: "string \<Rightarrow> url \<Rightarrow> (string \<times> string) list \<Rightarrow> request" where
  "simple_request m u ps = \<lparr>http_method = m, url = u, params = ps, headers = [], data = NoData\<rparr>"

text \<open>
  \<^verbatim>\<open>def _google_isfile(path):
      bucket, blob = google.split_url(path)
      if blob == "":
          return False, {}
      req = Request(url=google.build_url("/storage/v1/b/{bucket}/o/{object}",
                        bucket=bucket, object=blob), method="GET")
      with _execute_google_api_request(req) as resp:
          assert resp.status in (200, 404), f"unexpected status {resp.status}"
          return resp.status == 200, json.load(resp)\<close>
  The metadata returned are the members of the body; for \<open>_azure_isfile\<close>, which
  sends a HEAD, they are the headers of the response.
\<close>

definition google_object_url :: "string \<Rightarrow> string \<Rightarrow> url" where
  "google_object_url bucket blob =
     GoogleUrl ''/storage/v1/b/{bucket}/o/{object}'' [(''bucket'', bucket), (''object'', blob)]"

definition azure_blob_url :: "string \<Rightarrow> string \<Rightarrow> string \<Rightarrow> url" where
  "azure_blob_url account container blob =
     AzureUrl account ''/{container}/{blob}'' [(''container'', container), (''blob'', blob)]"

definition google_isfile ::
  "'w env \<Rightarrow> string \<Rightarrow> 'w world \<Rightarrow> (error + bool \<times> (string \<rightharpoonup> string)) \<times> 'w world" where
  "google_isfile env path w =
     (case google_split_url env path of
        (bucket, blob) \<Rightarrow>
          if blob = '''' then (Inr (False, Map.empty), w)
          else
            (case execute_google_api_request env
                    (simple_request ''GET'' (google_object_url bucket blob) []) w of
               (Inl err, w') \<Rightarrow> (Inl err, w')
             | (Inr resp, w') \<Rightarrow>
                 if status resp \<notin> {200, 404} then (Inl AssertionError, w')
                 else (Inr (status resp = 200, members resp), w')))"

definition azure_isfile ::
  "'w env \<Rightarrow> string \<Rightarrow> 'w world \<Rightarrow> (error + bool \<times> (string \<rightharpoonup> string)) \<times> 'w world" where
  "azure_isfile env path w =
     (case azure_split_url env path of
        (account, container, blob) \<Rightarrow>
          if blob = '''' then (Inr (False, Map.empty), w)
          else
            (case execute_azure_api_request env
                    (simple_request ''HEAD'' (azure_blob_url account container blob) []) w of
               (Inl err, w') \<Rightarrow> (Inl err, w')
             | (Inr resp, w') \<Rightarrow>
                 if status resp \<notin> {200, 404} then (Inl AssertionError, w')
                 else (Inr (status resp = 200, resp_headers resp), w')))"

text \<open>
  \<open>isdir\<close>. For a cloud path a slash is added if missing; an empty key asks for the
  bucket or container itself, otherwise one page of a delimited listing under the
  key is fetched and the directory exists when the page has a member \<open>items\<close> or
  \<open>prefixes\<close> (Google), or \<open>Blobs\<close> with \<open>Blob\<close> or \<open>BlobPrefix\<close> (Azure). The Google
  branch does not look at the status of the listing. The Azure branch reads
  \<open>xmltodict.parse(resp)["EnumerationResults"]\<close>, a \<open>KeyError\<close> when the body has no
  such element.
\<close>

definition listing_present :: "response \<Rightarrow> bool" where
  "listing_present resp = (listed_items resp \<noteq> None \<or> listed_prefixes resp \<noteq> None)"

definition isdir :: "'w env \<Rightarrow> string \<Rightarrow> 'w world \<Rightarrow> (error + bool) \<times> 'w world" where
  "isdir env path0 w =
     (if is_local_path env path0 then (Inr (os_path_isdir env path0 (net w)), w)
      else if is_google_path env path0 then
        (let path = add_slash path0 in
         case google_split_url env path of
           (bucket, blob_prefix) \<Rightarrow>
             if blob_prefix = '''' then
               (case execute_google_api_request env
                       (simple_request ''GET''
                          (GoogleUrl ''/storage/v1/b/{bucket}'' [(''bucket'', bucket)]) []) w of
                  (Inl err, w') \<Rightarrow> (Inl err, w')
                | (Inr resp, w') \<Rightarrow> (Inr (status resp = 200), w'))
             else
               (case execute_google_api_request env
                       (simple_request ''GET''
                          (GoogleUrl ''/storage/v1/b/{bucket}/o'' [(''bucket'', bucket)])
                          [(''prefix'', blob_prefix), (''delimiter'', ''/''), (''maxResults'', ''1'')]) w of
                  (Inl err, w') \<Rightarrow> (Inl err, w')
                | (Inr resp, w') \<Rightarrow> (Inr (listing_present resp), w')))
      else if is_azure_path env path0 then
        (let path = add_slash path0 in
         case azure_split_url env path of
           (account, container, blob) \<Rightarrow>
             if blob = '''' then
               (case execute_azure_api_request env
                       (simple_request ''GET''
                          (AzureUrl account ''/{container}'' [(''container'', container), (''blob'', blob)])
                          [(''restype'', ''container'')]) w of
                  (Inl err, w') \<Rightarrow> (Inl err, w')
                | (Inr resp, w') \<Rightarrow> (Inr (status resp = 200), w'))
             else
               (case execute_azure_api_request env
                       (simple_request ''GET''
                          (AzureUrl account ''/{container}'' [(''container'', container)])
                          [(''comp'', ''list''), (''restype'', ''container''), (''prefix'', blob),
                           (''delimiter'', ''/''), (''maxresults'', ''1'')]) w of
                  (Inl err, w') \<Rightarrow> (Inl err, w')
                | (Inr resp, w') \<Rightarrow>
                    if members resp ''EnumerationResults'' = None then (Inl KeyError, w')
                    else (Inr (listing_present resp), w')))
      else (Inl (Exception ''unrecognized path''), w))"

text \<open>
  \<^verbatim>\<open>def exists(path):
      if _is_local_path(path):
          return os.path.exists(path)
      elif _is_google_path(path):
          isfile, _ = _google_isfile(path)
          if isfile:
              return True
          return isdir(path)
      elif _is_azure_path(path):
          isfile, _ = _azure_isfile(path)
          if isfile:
              return True
          return isdir(path)
      else:
          raise Exception("unrecognized path")\<close>
\<close>

definition exists :: "'w env \<Rightarrow> string \<Rightarrow> 'w world \<Rightarrow> (error + bool) \<times> 'w world" where
  "exists env path w =
     (if is_local_path env path then (Inr (os_path_exists env path (net w)), w)
      else if is_google_path env path then
        (case google_isfile env path w of
           (Inl err, w') \<Rightarrow> (Inl err, w')
         | (Inr (isfile, md), w') \<Rightarrow> if isfile then (Inr True, w') else isdir env path w')
      else if is_azure_path env path then
        (case azure_isfile env path w of
           (Inl err, w') \<Rightarrow> (Inl err, w')
         | (Inr (isfile, md), w') \<Rightarrow> if isfile then (Inr True, w') else isdir env path w')
      else (Inl (Exception ''unrecognized path''), w))"

subsection \<open>Listings\<close>

text \<open>\<open>p[key] = value\<close> on a dictionary kept as a list of pairs in insertion order.\<close>

fun dict_set :: "('k \<times> 'v) list \<Rightarrow> 'k \<Rightarrow> 'v \<Rightarrow> ('k \<times> 'v) list" where
  "dict_set [] k v = [(k, v)]"
| "dict_set ((k', v') # ps) k v = (if k' = k then (k, v) # ps else (k', v') # dict_set ps k v)"

text \<open>
  \<open>_google_get_names\<close> yields the prefixes, then the items but the one named
  \<open>skip_item_name\<close>; \<open>_azure_get_names\<close> yields the blobs but that one, then the
  prefixes.
\<close>

definition google_get_names :: "response \<Rightarrow> string \<Rightarrow> string list" where
  "google_get_names result skip_item_name =
     (case listed_prefixes result of None \<Rightarrow> [] | Some ps \<Rightarrow> ps)
     @ filter (\<lambda>name. name \<noteq> skip_item_name)
         (case listed_items result of None \<Rightarrow> [] | Some items \<Rightarrow> items)"

definition azure_get_names :: "response \<Rightarrow> string \<Rightarrow> string list" where
  "azure_get_names result skip_item_name =
     filter (\<lambda>name. name \<noteq> skip_item_name)
       (case listed_items result of None \<Rightarrow> [] | Some items \<Rightarrow> items)
     @ (case listed_prefixes result of None \<Rightarrow> [] | Some ps \<Rightarrow> ps)"

text \<open>
  \<open>listdir\<close> and \<open>_list_suffixes\<close> are generators over the lazy page iterators
  \<open>_create_google_page_iterator\<close> and \<open>_create_azure_page_iterator\<close>. \<open>rmdir\<close> calls
  \<open>next\<close> once on a fresh \<open>listdir(path)\<close>; the functions below give what that first
  \<open>next\<close> does: it fetches pages until one yields a name (\<open>Some name\<close>) or the pages end
  (\<open>None\<close>, Python's \<open>StopIteration\<close>). A page iterator stops when the page has no
  \<open>nextPageToken\<close> (Google) or its \<open>NextMarker\<close> is null (Azure); nothing bounds the
  number of pages, so the functions take the number of pages they may fetch and
  give \<open>None\<close> when that does not suffice.
\<close>

fun google_first_name ::
  "nat \<Rightarrow> 'w env \<Rightarrow> url \<Rightarrow> (string \<times> string) list \<Rightarrow> string \<Rightarrow> 'w world
     \<Rightarrow> ((error + string option) \<times> 'w world) option" where
  "google_first_name 0 env u p skip w = None"
| "google_first_name (Suc pages) env u p skip w =
     (case execute_google_api_request env (simple_request ''GET'' u p) w of
        (Inl err, w') \<Rightarrow> Some (Inl err, w')
      | (Inr result, w') \<Rightarrow>
          (case google_get_names result skip of
             name # names \<Rightarrow> Some (Inr (Some name), w')
           | [] \<Rightarrow>
               (case members result ''nextPageToken'' of
                  None \<Rightarrow> Some (Inr None, w')
                | Some token \<Rightarrow>
                    google_first_name pages env u (dict_set p ''pageToken'' token) skip w')))"

fun azure_first_name ::
  "nat \<Rightarrow> 'w env \<Rightarrow> url \<Rightarrow> (string \<times> string) list \<Rightarrow> string \<Rightarrow> 'w world
     \<Rightarrow> ((error + string option) \<times> 'w world) option" where
  "azure_first_name 0 env u p skip w = None"
| "azure_first_name (Suc pages) env u p skip w =
     (case execute_azure_api_request env (simple_request ''GET'' u p) w of
        (Inl err, w') \<Rightarrow> Some (Inl err, w')
      | (Inr result, w') \<Rightarrow>
          if members result ''EnumerationResults'' = None then Some (Inl KeyError, w')
          else
            (case azure_get_names result skip of
               name # names \<Rightarrow> Some (Inr (Some name), w')
             | [] \<Rightarrow>
                 (case members result ''NextMarker'' of
                    None \<Rightarrow> Some (Inr None, w')
                  | Some marker \<Rightarrow>
                      azure_first_name pages env u (dict_set p ''marker'' marker) skip w')))"

text \<open>
  The first \<open>next\<close> of \<open>_list_suffixes(prefix, exclude_prefix)\<close>: the name found is
  yielded as \<open>_strip_slash(name[len(blob):])\<close>.
\<close>

definition suffix_of :: "string \<Rightarrow> string \<Rightarrow> string" where
  "suffix_of blob name = strip_slash (drop (length blob) name)"

definition list_suffixes_next ::
  "nat \<Rightarrow> 'w env \<Rightarrow> string \<Rightarrow> bool \<Rightarrow> 'w world \<Rightarrow> ((error + string option) \<times> 'w world) option"
where
  "list_suffixes_next pages env prefix exclude_prefix w =
     (if is_google_path env prefix then
        (case google_split_url env prefix of
           (bucket, blob) \<Rightarrow>
             (case google_first_name pages env
                     (GoogleUrl ''/storage/v1/b/{bucket}/o'' [(''bucket'', bucket)])
                     [(''delimiter'', ''/''), (''prefix'', blob)]
                     (if exclude_prefix then blob else '''') w of
                None \<Rightarrow> None
              | Some (Inl err, w') \<Rightarrow> Some (Inl err, w')
              | Some (Inr None, w') \<Rightarrow> Some (Inr None, w')
              | Some (Inr (Some name), w') \<Rightarrow> Some (Inr (Some (suffix_of blob name)), w')))
      else if is_azure_path env prefix then
        (case azure_split_url env prefix of
           (account, container, blob) \<Rightarrow>
             (case azure_first_name pages env
                     (AzureUrl account ''/{container}'' [(''container'', container)])
                     [(''comp'', ''list''), (''restype'', ''container''), (''prefix'', blob),
                      (''delimiter'', ''/'')]
                     (if exclude_prefix then blob else '''') w of
                None \<Rightarrow> None
              | Some (Inl err, w') \<Rightarrow> Some (Inl err, w')
              | Some (Inr None, w') \<Rightarrow> Some (Inr None, w')
              | Some (Inr (Some name), w') \<Rightarrow> Some (Inr (Some (suffix_of blob name)), w')))
      else Some (Inl (Exception ''unrecognized path''), w))"

text \<open>
  The first \<open>next\<close> of \<open>listdir(path)\<close> with the default \<open>shard_prefix_length = 0\<close>, as
  \<open>rmdir\<close> calls it:
  \<^verbatim>\<open>if not path.endswith("/"):
      path += "/"
  if not exists(path):
      raise FileNotFoundError(...)
  if not isdir(path):
      raise NotADirectoryError(...)
  if _is_local_path(path):
      for d in sorted(os.listdir(path)):
          yield d
  elif _is_google_path(path) or _is_azure_path(path):
      if shard_prefix_length == 0:
          yield from _list_suffixes(path, exclude_prefix=True)
      ...\<close>
  (\<open>os_listdir\<close> of \<open>env\<close> gives the sorted list.)
\<close>

definition listdir_next ::
  "nat \<Rightarrow> 'w env \<Rightarrow> string \<Rightarrow> 'w world \<Rightarrow> ((error + string option) \<times> 'w world) option" where
  "listdir_next pages env path0 w =
     (let path = add_slash path0 in
      case exists env path w of
        (Inl err, w1) \<Rightarrow> Some (Inl err, w1)
      | (Inr False, w1) \<Rightarrow> Some (Inl FileNotFoundError, w1)
      | (Inr True, w1) \<Rightarrow>
          (case isdir env path w1 of
             (Inl err, w2) \<Rightarrow> Some (Inl err, w2)
           | (Inr False, w2) \<Rightarrow> Some (Inl NotADirectoryError, w2)
           | (Inr True, w2) \<Rightarrow>
               if is_local_path env path then
                 (case os_listdir env path (net w2) of
                    Inl err \<Rightarrow> Some (Inl err, w2)
                  | Inr [] \<Rightarrow> Some (Inr None, w2)
                  | Inr (d # ds) \<Rightarrow> Some (Inr (Some d), w2))
               else if is_google_path env path \<or> is_azure_path env path then
                 list_suffixes_next pages env path True w2
               else Some (Inl (Exception ''unrecognized path''), w2)))"

subsection \<open>\<open>rmdir\<close> and \<open>remove\<close>\<close>

text \<open>
  \<^verbatim>\<open>def rmdir(path):
      if _is_local_path(path):
          os.rmdir(path)
          return
      if not path.endswith("/"):
          path += "/"
      if _is_google_path(path):
          _, blob = google.split_url(path)
      elif _is_azure_path(path):
          _, _, blob = azure.split_url(path)
      else:
          raise Exception("unrecognized path")
      if blob == "":
          raise Exception(f"Cannot delete bucket: '{path}'")
      it = listdir(path)
      try:
          next(it)
      except FileNotFoundError:
          # this directory does not exist
          return
      except StopIteration:
          # this directory exists and is empty
          pass
      else:
          # this directory exists but is not empty
          raise OSError(f"The directory is not empty: '{path}'")
      ... DELETE the object named blob; assert status 204 (Google), 202 (Azure)\<close>
  The result is the exception raised, if any, and the world; \<open>None\<close> when the pages
  allowed did not suffice. \<open>OSError\<close> stands for the \<open>OSError\<close> raised here, and
  \<open>cannot_delete_bucket path\<close> for \<open>Exception(f"Cannot delete bucket: '{path}'")\<close>
  (39 is the code of the quote character).
\<close>

definition delete_marker :: "'w env \<Rightarrow> string \<Rightarrow> 'w world \<Rightarrow> error option \<times> 'w world" where
  "delete_marker env path w =
     (if is_google_path env path then
        (case google_split_url env path of
           (bucket, blob) \<Rightarrow>
             (case execute_google_api_request env
                     (simple_request ''DELETE'' (google_object_url bucket blob) []) w of
                (Inl err, w') \<Rightarrow> (Some err, w')
              | (Inr resp, w') \<Rightarrow> (if status resp = 204 then None else Some AssertionError, w')))
      else if is_azure_path env path then
        (case azure_split_url env path of
           (account, container, blob) \<Rightarrow>
             (case execute_azure_api_request env
                     (simple_request ''DELETE'' (azure_blob_url account container blob) []) w of
                (Inl err, w') \<Rightarrow> (Some err, w')
              | (Inr resp, w') \<Rightarrow> (if status resp = 202 then None else Some AssertionError, w')))
      else (Some (Exception ''unrecognized path''), w))"

definition cannot_delete_bucket :: "string \<Rightarrow> error" where
  "cannot_delete_bucket path =
     Exception (''Cannot delete bucket: '' @ [char_of (39::nat)] @ path @ [char_of (39::nat)])"

definition rmdir :: "nat \<Rightarrow> 'w env \<Rightarrow> string \<Rightarrow> 'w world \<Rightarrow> (error option \<times> 'w world) option" where
  "rmdir pages env path0 w =
     (if is_local_path env path0 then
        (case os_rmdir env path0 (net w) of (res, n) \<Rightarrow> Some (res, w\<lparr>net := n\<rparr>))
      else
        let path = add_slash path0 in
        if \<not> is_google_path env path \<and> \<not> is_azure_path env path
        then Some (Some (Exception ''unrecognized path''), w)
        else
          let blob = (if is_google_path env path then snd (google_split_url env path)
                      else snd (snd (azure_split_url env path)))
          in if blob = '''' then Some (Some (cannot_delete_bucket path), w)
             else
               (case listdir_next pages env path w of
                  None \<Rightarrow> None
                | Some (Inl FileNotFoundError, w') \<Rightarrow> Some (None, w')
                | Some (Inl err, w') \<Rightarrow> Some (Some err, w')
                | Some (Inr (Some name), w') \<Rightarrow> Some (Some OSError, w')
                | Some (Inr None, w') \<Rightarrow> Some (delete_marker env path w')))"

text \<open>
  \<open>remove\<close>: a local path goes to \<open>os.remove\<close>; a cloud path with an empty key or a
  key ending in a slash raises \<open>IsADirectoryError\<close>; otherwise one DELETE, where 404
  raises \<open>FileNotFoundError\<close> and the status must be 204 (Google) or 202 (Azure).
\<close>

definition remove :: "'w env \<Rightarrow> string \<Rightarrow> 'w world \<Rightarrow> error option \<times> 'w world" where
  "remove env path w =
     (if is_local_path env path then
        (case os_remove env path (net w) of (res, n) \<Rightarrow> (res, w\<lparr>net := n\<rparr>))
      else if is_google_path env path then
        (case google_split_url env path of
           (bucket, blob) \<Rightarrow>
             if blob = '''' \<or> ends_with_slash blob then (Some IsADirectoryError, w)
             else
               (case execute_google_api_request env
                       (simple_request ''DELETE'' (google_object_url bucket blob) []) w of
                  (Inl err, w') \<Rightarrow> (Some err, w')
                | (Inr resp, w') \<Rightarrow>
                    (if status resp = 404 then Some FileNotFoundError
                     else if status resp = 204 then None else Some AssertionError, w')))
      else if is_azure_path env path then
        (case azure_split_url env path of
           (account, container, blob) \<Rightarrow>
             if blob = '''' \<or> ends_with_slash blob then (Some IsADirectoryError, w)
             else
               (case execute_azure_api_request env
                       (simple_request ''DELETE'' (azure_blob_url account container blob) []) w of
                  (Inl err, w') \<Rightarrow> (Some err, w')
                | (Inr resp, w') \<Rightarrow>
                    (if status resp = 404 then Some FileNotFoundError
                     else if status resp = 202 then None else Some AssertionError, w')))
      else (Some (Exception ''unrecognized path''), w))"

subsection \<open>An object store behind the requests\<close>

text \<open>
  To state what \<open>rmdir\<close> does to a directory, the requests need a store to answer
  them. The store here is the flat key space of the clouds: the keys of every Google
  bucket and of every Azure container (by account and container). It answers the
  requests that the path operations send, the way the two services do for them:
  a GET or HEAD of an object is 200 when the key is there and 404 otherwise; a
  DELETE removes the key (204 for Google, 202 for Azure) or is 404; a listing gives,
  among the keys that start with \<open>prefix\<close>, those without a further slash as items
  and, for the others, the prefix up to and including that slash, each once; a
  member of the listing with nothing in it is absent. Every listing fits in one
  page. A bucket or container that does not exist answers 404.
\<close>

record store =
  buckets :: "string \<rightharpoonup> string list"
  containers :: "string \<times> string \<rightharpoonup> string list"

definition starts_with :: "string \<Rightarrow> string \<Rightarrow> bool" where
  "starts_with pre key = (take (length pre) key = pre)"

definition has_slash_after :: "string \<Rightarrow> string \<Rightarrow> bool" where
  "has_slash_after pre key = (CHR ''/'' \<in> set (drop (length pre) key))"

definition common_prefix :: "string \<Rightarrow> string \<Rightarrow> string" where
  "common_prefix pre key = pre @ takeWhile (\<lambda>c. c \<noteq> CHR ''/'') (drop (length pre) key) @ ''/''"

definition listing :: "(string \<times> string) list \<Rightarrow> string list \<Rightarrow> response" where
  "listing ps keys =
     (let pre = (case map_of ps ''prefix'' of None \<Rightarrow> '''' | Some p \<Rightarrow> p);
          under = filter (starts_with pre) keys;
          items = (if map_of ps ''delimiter'' = Some ''/''
                   then filter (\<lambda>k. \<not> has_slash_after pre k) under else under);
          prefixes = (if map_of ps ''delimiter'' = Some ''/''
                      then remdups (map (common_prefix pre) (filter (has_slash_after pre) under))
                      else [])
      in \<lparr>status = 200, resp_headers = Map.empty,
          members = [''EnumerationResults'' \<mapsto> ''''],
          listed_items = (if items = [] then None else Some items),
          listed_prefixes = (if prefixes = [] then None else Some prefixes)\<rparr>)"

definition object_request ::
  "nat \<Rightarrow> string \<Rightarrow> string \<Rightarrow> string list \<Rightarrow> nat \<times> string list" where
  "object_request deleted m key keys =
     (if key \<notin> set keys then (404, keys)
      else if m = ''DELETE'' then (deleted, removeAll key keys)
      else (200, keys))"

definition store_google :: "store http" where
  "store_google req st =
     (case url req of
        GoogleUrl template kw \<Rightarrow>
          (case map_of kw ''bucket'' of
             None \<Rightarrow> (Inr (plain_response 400), st)
           | Some b \<Rightarrow>
               (case buckets st b of
                  None \<Rightarrow> (Inr (plain_response 404), st)
                | Some keys \<Rightarrow>
                    if template = ''/storage/v1/b/{bucket}'' then (Inr (plain_response 200), st)
                    else if template = ''/storage/v1/b/{bucket}/o''
                    then (Inr (listing (params req) keys), st)
                    else if template = ''/storage/v1/b/{bucket}/o/{object}'' then
                      (case map_of kw ''object'' of
                         None \<Rightarrow> (Inr (plain_response 400), st)
                       | Some key \<Rightarrow>
                           (case object_request 204 (http_method req) key keys of
                              (code, keys') \<Rightarrow>
                                (Inr (plain_response code), st\<lparr>buckets := (buckets st)(b \<mapsto> keys')\<rparr>)))
                    else (Inr (plain_response 400), st)))
      | _ \<Rightarrow> (Inr (plain_response 400), st))"

definition store_azure :: "store http" where
  "store_azure req st =
     (case url req of
        AzureUrl account template kw \<Rightarrow>
          (case map_of kw ''container'' of
             None \<Rightarrow> (Inr (plain_response 400), st)
           | Some c \<Rightarrow>
               (case containers st (account, c) of
                  None \<Rightarrow> (Inr (plain_response 404), st)
                | Some keys \<Rightarrow>
                    if template = ''/{container}'' then
                      (if map_of (params req) ''comp'' = Some ''list''
                       then (Inr (listing (params req) keys), st)
                       else (Inr (plain_response 200), st))
                    else if template = ''/{container}/{blob}'' then
                      (case map_of kw ''blob'' of
                         None \<Rightarrow> (Inr (plain_response 400), st)
                       | Some key \<Rightarrow>
                           (case object_request 202 (http_method req) key keys of
                              (code, keys') \<Rightarrow>
                                (Inr (plain_response code),
                                 st\<lparr>containers := (containers st)((account, c) \<mapsto> keys')\<rparr>)))
                    else (Inr (plain_response 400), st)))
      | _ \<Rightarrow> (Inr (plain_response 400), st))"

text \<open>
  Modelled from the spec: the scheme of a path and the two \<open>split_url\<close> (of the
  modules \<open>google\<close> and \<open>azure\<close>, which are not in the source at hand), on the path
  shapes \<open>gs://<bucket>/<key>\<close> and \<open>as://<account>-<container>/<key>\<close> of the spec's
  data model. They serve the concrete runs only: the theorems take these functions
  as parameters.
\<close>

definition simple_scheme :: "string \<Rightarrow> string" where
  "simple_scheme path =
     (let s = takeWhile (\<lambda>c. c \<noteq> CHR '':'') path
      in if take 3 (drop (length s) path) = ''://'' then s else '''')"

definition simple_google_split_url :: "string \<Rightarrow> string \<times> string" where
  "simple_google_split_url path =
     (let rest = drop (length ''gs://'') path;
          bucket = takeWhile (\<lambda>c. c \<noteq> CHR ''/'') rest
      in (bucket, drop (length bucket + 1) rest))"

definition simple_azure_split_url :: "string \<Rightarrow> string \<times> string \<times> string" where
  "simple_azure_split_url path =
     (let rest = drop (length ''as://'') path;
          netloc = takeWhile (\<lambda>c. c \<noteq> CHR ''/'') rest;
          account = takeWhile (\<lambda>c. c \<noteq> CHR ''-'') netloc
      in (account, drop (length account + 1) netloc, drop (length netloc + 1) rest))"

text \<open>
  The environment of the concrete runs: the object store behind both clouds, and no
  local file system (every local call fails or finds nothing).
\<close>

definition store_env :: "store env" where
  "store_env =
     \<lparr>http_google = store_google, http_azure = store_azure,
      url_scheme = simple_scheme,
      google_split_url = simple_google_split_url,
      azure_split_url = simple_azure_split_url,
      int_of_text = (\<lambda>t. Inl ValueError),
      os_path_exists = (\<lambda>p st. False),
      os_path_isdir = (\<lambda>p st. False),
      os_listdir = (\<lambda>p st. Inl FileNotFoundError),
      os_rmdir = (\<lambda>p st. (Some FileNotFoundError, st)),
      os_remove = (\<lambda>p st. (Some FileNotFoundError, st)),
      file_io = (\<lambda>p m st. (Inl FileNotFoundError, st))\<rparr>"

text \<open>
  What a cloud path denotes in the store: its key, and the keys of its bucket or
  container when that exists. A directory key is empty when it is the only key that
  starts with it, and non-empty when another key starts with it.
\<close>

definition remote_key :: "'w env \<Rightarrow> string \<Rightarrow> string option" where
  "remote_key env path =
     (if is_google_path env path then Some (snd (google_split_url env path))
      else if is_azure_path env path then Some (snd (snd (azure_split_url env path)))
      else None)"

definition remote_keys :: "store env \<Rightarrow> string \<Rightarrow> store \<Rightarrow> string list option" where
  "remote_keys env path st =
     (if is_google_path env path then buckets st (fst (google_split_url env path))
      else if is_azure_path env path
      then containers st (fst (azure_split_url env path), fst (snd (azure_split_url env path)))
      else None)"

definition empty_directory :: "string \<Rightarrow> string list \<Rightarrow> bool" where
  "empty_directory d keys = (d \<in> set keys \<and> (\<forall>k \<in> set keys. starts_with d k \<longrightarrow> k = d))"

definition nonempty_directory :: "string \<Rightarrow> string list \<Rightarrow> bool" where
  "nonempty_directory d keys = (\<exists>k \<in> set keys. starts_with d k \<and> k \<noteq> d)"

text \<open>
  A store for concrete runs: a Google bucket with the marker of an empty directory
  \<open>dir/\<close> and a file under \<open>other/\<close>, and an Azure container with the same keys.
\<close>

definition example_world :: "store world" where
  "example_world =
     \<lparr>net = \<lparr>buckets = [''bucket'' \<mapsto> [''dir/'', ''other/file'']],
             containers = [(''account'', ''container'') \<mapsto> [''dir/'', ''other/file'']]\<rparr>,
      sent = []\<rparr>"

subsection \<open>\<open>BlobFile\<close>\<close>

text \<open>
  What \<open>BlobFile\<close> returns: the raw file it built (for a local path the descriptor
  that \<open>io.FileIO\<close> gave, for a cloud path one of the four streaming classes with
  what its constructor computed), whether it is wrapped in an \<open>io.BufferedReader\<close> or
  \<open>io.BufferedWriter\<close> with the buffer size, and whether it is wrapped in an
  \<open>io.TextIOWrapper\<close>.
\<close>

datatype raw_file =
    LocalFile nat
  | GoogleStreamingWriteFile string
  | GoogleStreamingReadFile streaming_read_file
  | AzureStreamingWriteFile url
  | AzureStreamingReadFile streaming_read_file

record blob_file =
  raw :: raw_file
  buffered :: "nat option"
  text_wrapper :: bool

definition DEFAULT_BUFFER_SIZE :: nat where
  "DEFAULT_BUFFER_SIZE = 8192"

text \<open>
  \<open>_GoogleStreamingWriteFile.__init__\<close>: a POST opens the resumable session, the status
  must be 200, and the session URL is the header \<open>Location\<close>.
\<close>

definition google_streaming_write_file ::
  "'w env \<Rightarrow> string \<Rightarrow> 'w world \<Rightarrow> (error + raw_file) \<times> 'w world" where
  "google_streaming_write_file env path w =
     (case google_split_url env path of
        (bucket, name) \<Rightarrow>
          (case execute_google_api_request env
                  \<lparr>http_method = ''POST'',
                   url = GoogleUrl ''/upload/storage/v1/b/{bucket}/o?uploadType=resumable''
                           [(''bucket'', bucket)],
                   params = [],
                   headers = [(''Content-Type'', Text ''application/json; charset=UTF-8'')],
                   data = Form [(''name'', name)]\<rparr> w of
             (Inl err, w') \<Rightarrow> (Inl err, w')
           | (Inr resp, w') \<Rightarrow>
               if status resp \<noteq> 200 then (Inl AssertionError, w')
               else (case resp_headers resp ''Location'' of
                       None \<Rightarrow> (Inl KeyError, w')
                     | Some u \<Rightarrow> (Inr (GoogleStreamingWriteFile u), w'))))"

text \<open>
  \<open>_GoogleStreamingReadFile.__init__\<close> and \<open>_AzureStreamingReadFile.__init__\<close>: the file
  must exist, and the size is \<open>int(metadata["size"])\<close>, respectively
  \<open>int(metadata["Content-Length"])\<close>.
\<close>

definition size_of_metadata ::
  "'w env \<Rightarrow> string \<Rightarrow> (string \<rightharpoonup> string) \<Rightarrow> error + int" where
  "size_of_metadata env name metadata =
     (case metadata name of None \<Rightarrow> Inl KeyError | Some t \<Rightarrow> int_of_text env t)"

definition google_streaming_read_file ::
  "'w env \<Rightarrow> string \<Rightarrow> 'w world \<Rightarrow> (error + raw_file) \<times> 'w world" where
  "google_streaming_read_file env path w =
     (case google_isfile env path w of
        (Inl err, w') \<Rightarrow> (Inl err, w')
      | (Inr (isfile, metadata), w') \<Rightarrow>
          if \<not> isfile then (Inl FileNotFoundError, w')
          else (case size_of_metadata env ''size'' metadata of
                  Inl err \<Rightarrow> (Inl err, w')
                | Inr sz \<Rightarrow> (Inr (GoogleStreamingReadFile (streaming_read_file_init path sz)), w')))"

definition azure_streaming_read_file ::
  "'w env \<Rightarrow> string \<Rightarrow> 'w world \<Rightarrow> (error + raw_file) \<times> 'w world" where
  "azure_streaming_read_file env path w =
     (case azure_isfile env path w of
        (Inl err, w') \<Rightarrow> (Inl err, w')
      | (Inr (isfile, metadata), w') \<Rightarrow>
          if \<not> isfile then (Inl FileNotFoundError, w')
          else (case size_of_metadata env ''Content-Length'' metadata of
                  Inl err \<Rightarrow> (Inl err, w')
                | Inr sz \<Rightarrow> (Inr (AzureStreamingReadFile (streaming_read_file_init path sz)), w')))"

text \<open>
  \<^verbatim>\<open>class _AzureStreamingWriteFile(_StreamingWriteFile):
      def __init__(self, path):
          account, container, blob = azure.split_url(path)
          self._url = azure.build_url(account, "/{container}/{blob}", ...)
          req = Request(url=self._url, method="PUT",
                        headers={"x-ms-blob-type": "AppendBlob"})
          with _execute_azure_api_request(req) as resp:
              if resp.status == 409:
                  # a blob already exists with a different type ...
                  remove(path)
                  with _execute_azure_api_request(req) as resp:
                      pass
              assert resp.status == 201, f"unexpected status {resp.status}"\<close>
\<close>

definition azure_streaming_write_file ::
  "'w env \<Rightarrow> string \<Rightarrow> 'w world \<Rightarrow> (error + raw_file) \<times> 'w world" where
  "azure_streaming_write_file env path w =
     (case azure_split_url env path of
        (account, container, blob) \<Rightarrow>
          let u = azure_blob_url account container blob;
              req = \<lparr>http_method = ''PUT'', url = u, params = [],
                     headers = [(''x-ms-blob-type'', Text ''AppendBlob'')], data = NoData\<rparr>
          in case execute_azure_api_request env req w of
               (Inl err, w1) \<Rightarrow> (Inl err, w1)
             | (Inr resp, w1) \<Rightarrow>
                 if status resp = 409 then
                   (case remove env path w1 of
                      (Some err, w2) \<Rightarrow> (Inl err, w2)
                    | (None, w2) \<Rightarrow>
                        (case execute_azure_api_request env req w2 of
                           (Inl err, w3) \<Rightarrow> (Inl err, w3)
                         | (Inr resp', w3) \<Rightarrow>
                             if status resp' \<noteq> 201 then (Inl AssertionError, w3)
                             else (Inr (AzureStreamingWriteFile u), w3)))
                 else if status resp \<noteq> 201 then (Inl AssertionError, w1)
                 else (Inr (AzureStreamingWriteFile u), w1))"

text \<open>
  \<^verbatim>\<open>def BlobFile(path, mode="r", buffer_size=io.DEFAULT_BUFFER_SIZE):
      assert not path.endswith("/")
      mode = mode
      assert mode in ("w", "wb", "r", "rb")
      if _is_local_path(path):
          f = io.FileIO(path, mode=mode)
          if "r" in mode:
              f = io.BufferedReader(f, buffer_size=buffer_size)
          else:
              f = io.BufferedWriter(f, buffer_size=buffer_size)
      elif _is_google_path(path):
          if mode in ("w", "wb"):
              f = _GoogleStreamingWriteFile(path)
          elif mode in ("r", "rb"):
              f = _GoogleStreamingReadFile(path)
              f = io.BufferedReader(f, buffer_size=buffer_size)
          else:
              raise Exception(f"unsupported mode {mode}")
      elif _is_azure_path(path):
          ... the same with the Azure classes
      else:
          raise Exception("unrecognized path")
      binary_f = cast(BinaryIO, f)
      if "b" in mode:
          return binary_f
      else:
          text_f = io.TextIOWrapper(binary_f, encoding="utf8")
          return cast(TextIO, text_f)\<close>
\<close>

definition BlobFile ::
  "'w env \<Rightarrow> string \<Rightarrow> string \<Rightarrow> nat \<Rightarrow> 'w world \<Rightarrow> (error + blob_file) \<times> 'w world" where
  "BlobFile env path mode buffer_size w =
     (if ends_with_slash path then (Inl AssertionError, w)
      else if mode \<notin> {''w'', ''wb'', ''r'', ''rb''} then (Inl AssertionError, w)
      else
        let wrap = (\<lambda>f b. \<lparr>raw = f, buffered = b, text_wrapper = (CHR ''b'' \<notin> set mode)\<rparr>);
            reading = (mode \<in> {''r'', ''rb''})
        in if is_local_path env path then
             (case file_io env path mode (net w) of
                (Inl err, n) \<Rightarrow> (Inl err, w\<lparr>net := n\<rparr>)
              | (Inr fd, n) \<Rightarrow> (Inr (wrap (LocalFile fd) (Some buffer_size)), w\<lparr>net := n\<rparr>))
           else if is_google_path env path then
             (if \<not> reading then
                (case google_streaming_write_file env path w of
                   (Inl err, w') \<Rightarrow> (Inl err, w')
                 | (Inr f, w') \<Rightarrow> (Inr (wrap f None), w'))
              else
                (case google_streaming_read_file env path w of
                   (Inl err, w') \<Rightarrow> (Inl err, w')
                 | (Inr f, w') \<Rightarrow> (Inr (wrap f (Some buffer_size)), w')))
           else if is_azure_path env path then
             (if \<not> reading then
                (case azure_streaming_write_file env path w of
                   (Inl err, w') \<Rightarrow> (Inl err, w')
                 | (Inr f, w') \<Rightarrow> (Inr (wrap f None), w'))
              else
                (case azure_streaming_read_file env path w of
                   (Inl err, w') \<Rightarrow> (Inl err, w')
                 | (Inr f, w') \<Rightarrow> (Inr (wrap f (Some buffer_size)), w')))
           else (Inl (Exception ''unrecognized path''), w))"

subsection \<open>\<open>copy\<close>\<close>

text \<open>
  Two parts of \<open>copy\<close> go through code that no claim here is about, and enter as
  parameters of which nothing is assumed: \<open>md5_of\<close> is the function \<open>md5\<close> of \<open>ops.py\<close>
  (called on the destination after an Azure copy when an MD5 is asked for), and
  \<open>pump\<close> is the body of the last \<open>with\<close> statement, which reads the source in pieces
  of \<open>CHUNK_SIZE\<close>, writes them to the destination, closes both files and returns the
  hex digest if asked for.
\<close>

record 'w transfer =
  md5_of :: "string \<Rightarrow> 'w world \<Rightarrow> (error + string) \<times> 'w world"
  pump :: "blob_file \<Rightarrow> blob_file \<Rightarrow> bool \<Rightarrow> 'w world \<Rightarrow> (error + string option) \<times> 'w world"

text \<open>
  The Google to Google branch:
  \<^verbatim>\<open>while True:
      params = {}
      req = Request(url=google.build_url(".../rewriteTo/...", ...), method="POST",
                    params=params)
      with _execute_google_api_request(req) as resp:
          if resp.status == 404:
              raise FileNotFoundError(f"src file '{src}' not found")
          assert resp.status == 200, f"unexpected status {resp.status}"
          result = json.load(resp)
          if result["done"]:
              if return_md5:
                  return base64.b64decode(result["resource"]["md5Hash"]).hex()
              else:
                  return
          params["rewriteToken"] = result["rewriteToken"]\<close>
  \<open>params\<close> is a new dictionary in every turn, so the token never reaches a request.
  The digest returned is kept as the base64 text it is decoded from. The loop has
  no bound: it takes the number of requests it may send.
\<close>

fun google_rewrite ::
  "nat \<Rightarrow> 'w env \<Rightarrow> url \<Rightarrow> bool \<Rightarrow> 'w world \<Rightarrow> ((error + string option) \<times> 'w world) option"
where
  "google_rewrite 0 env u return_md5 w = None"
| "google_rewrite (Suc turns) env u return_md5 w =
     (case execute_google_api_request env (simple_request ''POST'' u []) w of
        (Inl err, w') \<Rightarrow> Some (Inl err, w')
      | (Inr resp, w') \<Rightarrow>
          if status resp = 404 then Some (Inl FileNotFoundError, w')
          else if status resp \<noteq> 200 then Some (Inl AssertionError, w')
          else
            (case members resp ''done'' of
               None \<Rightarrow> Some (Inl KeyError, w')
             | Some done \<Rightarrow>
                 if done = ''true'' then
                   (if return_md5 then
                      (case members resp ''resource.md5Hash'' of
                         None \<Rightarrow> Some (Inl KeyError, w')
                       | Some h \<Rightarrow> Some (Inr (Some h), w'))
                    else Some (Inr None, w'))
                 else
                   (case members resp ''rewriteToken'' of
                      None \<Rightarrow> Some (Inl KeyError, w')
                    | Some token \<Rightarrow> google_rewrite turns env u return_md5 w')))"

text \<open>
  The Azure to Azure branch starts a server-side copy with a PUT carrying
  \<open>x-ms-copy-source\<close> (404 raises \<open>FileNotFoundError\<close>, the status must be 202), then
  polls the destination with GET while \<open>x-ms-copy-status\<close> is \<open>pending\<close>, asserting
  status 200 and the same \<open>x-ms-copy-id\<close>; the final status must be \<open>success\<close>.
  The polling has no bound: it takes the number of requests it may send.
\<close>

fun azure_poll ::
  "nat \<Rightarrow> 'w env \<Rightarrow> url \<Rightarrow> string \<Rightarrow> string \<Rightarrow> 'w world \<Rightarrow> ((error + unit) \<times> 'w world) option"
where
  "azure_poll 0 env u copy_id copy_status w =
     (if copy_status = ''pending'' then None
      else if copy_status \<noteq> ''success'' then Some (Inl AssertionError, w)
      else Some (Inr (), w))"
| "azure_poll (Suc turns) env u copy_id copy_status w =
     (if copy_status = ''pending'' then
        (case execute_azure_api_request env (simple_request ''GET'' u []) w of
           (Inl err, w') \<Rightarrow> Some (Inl err, w')
         | (Inr resp, w') \<Rightarrow>
             if status resp \<noteq> 200 then Some (Inl AssertionError, w')
             else
               (case resp_headers resp ''x-ms-copy-id'' of
                  None \<Rightarrow> Some (Inl KeyError, w')
                | Some i \<Rightarrow>
                    if i \<noteq> copy_id then Some (Inl AssertionError, w')
                    else (case resp_headers resp ''x-ms-copy-status'' of
                            None \<Rightarrow> Some (Inl KeyError, w')
                          | Some st \<Rightarrow> azure_poll turns env u copy_id st w')))
      else if copy_status \<noteq> ''success'' then Some (Inl AssertionError, w)
      else Some (Inr (), w))"

definition azure_copy ::
  "nat \<Rightarrow> 'w env \<Rightarrow> 'w transfer \<Rightarrow> string \<Rightarrow> string \<Rightarrow> bool \<Rightarrow> 'w world
     \<Rightarrow> ((error + string option) \<times> 'w world) option" where
  "azure_copy turns env tr src dst return_md5 w =
     (case (azure_split_url env dst, azure_split_url env src) of
        ((dst_account, dst_container, dst_blob), (src_account, src_container, src_blob)) \<Rightarrow>
          let u = azure_blob_url dst_account dst_container dst_blob;
              req = \<lparr>http_method = ''PUT'', url = u, params = [],
                     headers = [(''x-ms-copy-source'',
                                 CopySource (azure_blob_url src_account src_container src_blob))],
                     data = NoData\<rparr>
          in case execute_azure_api_request env req w of
               (Inl err, w1) \<Rightarrow> Some (Inl err, w1)
             | (Inr resp, w1) \<Rightarrow>
                 if status resp = 404 then Some (Inl FileNotFoundError, w1)
                 else if status resp \<noteq> 202 then Some (Inl AssertionError, w1)
                 else
                   (case (resp_headers resp ''x-ms-copy-id'', resp_headers resp ''x-ms-copy-status'') of
                      (Some copy_id, Some copy_status) \<Rightarrow>
                        (case azure_poll turns env u copy_id copy_status w1 of
                           None \<Rightarrow> None
                         | Some (Inl err, w2) \<Rightarrow> Some (Inl err, w2)
                         | Some (Inr done, w2) \<Rightarrow>
                             if return_md5 then
                               (case md5_of tr dst w2 of
                                  (Inl err, w3) \<Rightarrow> Some (Inl err, w3)
                                | (Inr h, w3) \<Rightarrow> Some (Inr (Some h), w3))
                             else Some (Inr None, w2))
                    | _ \<Rightarrow> Some (Inl KeyError, w1)))"

text \<open>
  \<^verbatim>\<open>def copy(src, dst, overwrite=False, return_md5=False):
      if not overwrite:
          if exists(dst):
              raise FileExistsError(
                  f"destination '{dst}' already exists and overwrite is disabled")
      if _is_google_path(src) and _is_google_path(dst):
          ... the rewrite loop
      if _is_azure_path(src) and _is_azure_path(dst):
          ... the server-side copy
      with BlobFile(src, "rb") as src_f, BlobFile(dst, "wb") as dst_f:
          ... the loop over the blocks\<close>
  \<open>copy_from\<close> is everything after the first \<open>if\<close>. The result is \<open>None\<close> when the turns
  allowed to the two unbounded loops did not suffice.
\<close>

definition copy_from ::
  "nat \<Rightarrow> 'w env \<Rightarrow> 'w transfer \<Rightarrow> string \<Rightarrow> string \<Rightarrow> bool \<Rightarrow> 'w world
     \<Rightarrow> ((error + string option) \<times> 'w world) option" where
  "copy_from turns env tr src dst return_md5 w =
     (if is_google_path env src \<and> is_google_path env dst then
        (case (google_split_url env src, google_split_url env dst) of
           ((srcbucket, srcname), (dstbucket, dstname)) \<Rightarrow>
             google_rewrite turns env
               (GoogleUrl (''/storage/v1/b/{sourceBucket}/o/{sourceObject}''
                           @ ''/rewriteTo/b/{destinationBucket}/o/{destinationObject}'')
                  [(''sourceBucket'', srcbucket), (''sourceObject'', srcname),
                   (''destinationBucket'', dstbucket), (''destinationObject'', dstname)])
               return_md5 w)
      else if is_azure_path env src \<and> is_azure_path env dst then
        azure_copy turns env tr src dst return_md5 w
      else
        (case BlobFile env src ''rb'' DEFAULT_BUFFER_SIZE w of
           (Inl err, w1) \<Rightarrow> Some (Inl err, w1)
         | (Inr src_f, w1) \<Rightarrow>
             (case BlobFile env dst ''wb'' DEFAULT_BUFFER_SIZE w1 of
                (Inl err, w2) \<Rightarrow> Some (Inl err, w2)
              | (Inr dst_f, w2) \<Rightarrow> Some (pump tr src_f dst_f return_md5 w2))))"

definition copy ::
  "nat \<Rightarrow> 'w env \<Rightarrow> 'w transfer \<Rightarrow> string \<Rightarrow> string \<Rightarrow> bool \<Rightarrow> bool \<Rightarrow> 'w world
     \<Rightarrow> ((error + string option) \<times> 'w world) option" where
  "copy turns env tr src dst overwrite return_md5 w =
     (if \<not> overwrite then
        (case exists env dst w of
           (Inl err, w') \<Rightarrow> Some (Inl err, w')
         | (Inr True, w') \<Rightarrow> Some (Inl FileExistsError, w')
         | (Inr False, w') \<Rightarrow> copy_from turns env tr src dst return_md5 w')
      else copy_from turns env tr src dst return_md5 w)"

text \<open>The requests that only read: GET and HEAD.\<close>

definition reads_only :: "request list \<Rightarrow> bool" where
  "reads_only rs = list_all (\<lambda>r. http_method r = ''GET'' \<or> http_method r = ''HEAD'') rs"

text \<open>For concrete runs: a \<open>transfer\<close> whose two parts raise at once.\<close>

definition no_transfer :: "store transfer" where
  "no_transfer =
     \<lparr>md5_of = (\<lambda>path w. (Inl (Exception ''md5''), w)),
      pump = (\<lambda>src_f dst_f return_md5 w. (Inl (Exception ''pump''), w))\<rparr>"

section \<open>Theorems\<close>

subsection \<open>The invalid-character set\<close>

lemma INVALID_CHARS_eq: "INVALID_CHARS = {0..8} \<union> {11..31}"
  by (simp only: INVALID_CHARS_def set_upt) auto

lemma valid_chars_set: "set valid_chars = {i. i < 256 \<and> i \<notin> {0..8} \<union> {11..31} \<and> i \<noteq> 47}"
  by (auto simp: valid_chars_def INVALID_CHARS_eq)

lemma product_repeat_one: "product_repeat xs (Suc 0) = map (\<lambda>x. [x]) xs"
  by (induction xs) simp_all

lemma char_of_carriage_return:
  "c < 256 \<Longrightarrow> (char_of (c::nat) :: char) = char_of (13::nat) \<Longrightarrow> c = 13"
proof -
  assume c: "c < 256" and e: "(char_of c :: char) = char_of (13::nat)"
  have "of_char (char_of c :: char) = (of_char (char_of (13::nat) :: char) :: nat)"
    using e by simp
  then show "c = 13" using c by (simp add: of_char_of)
qed

lemma no_shard_for_carriage_return:
  "(path, [char_of (13::nat)], False) \<notin> set (shard_tasks path 1)"
proof
  assume "(path, [char_of (13::nat)], False) \<in> set (shard_tasks path 1)"
  then obtain c where "c \<in> set valid_chars" "(char_of c :: char) = char_of (13::nat)"
    by (auto simp: shard_tasks_def product_repeat_one)
  moreover from this(1) have "c < 256" by (simp add: valid_chars_set)
  ultimately have "13 \<in> set valid_chars" using char_of_carriage_return by blast
  then show False by (simp add: valid_chars_set)
qed

text \<open>
  C5. The claim gives the invalid set as 0x00-0x08, 0x0B, 0x0C, 0x0E-0x1F and makes
  every other byte but the slash a shard-prefix character, so 0x0D (13) would be one.
  In the code \<open>range(0xB, 0xE)\<close> reaches 0x0D: 13 is in \<open>INVALID_CHARS\<close>, which is
  0x00-0x08 with 0x0B-0x1F, it is not among \<open>valid_chars\<close>, and with
  \<open>shard_prefix_length = 1\<close> no task of the sharded lister has it as its prefix.
\<close>

theorem INVALID_CHARS_contains_0x0D:
  "13 \<in> INVALID_CHARS \<and> 13 \<notin> set valid_chars
   \<and> INVALID_CHARS = {0x00..0x08} \<union> {0x0B..0x1F}
   \<and> (path, [char_of (13::nat)], False) \<notin> set (shard_tasks path 1)"
  using no_shard_for_carriage_return [of path]
  by (simp add: valid_chars_set INVALID_CHARS_eq)

subsection \<open>The HTTP executor\<close>

lemma sleep_generator_closed_form:
  "exponential_sleep_generator (1 / 10) 60 2 n = min (1 / 10 * 2 ^ n) 60"
proof (induction n)
  case 0
  show ?case by simp
next
  case (Suc n)
  show ?case
  proof (cases "(1 / 10 * 2 ^ n :: real) \<le> 60")
    case True
    then have "exponential_sleep_generator (1 / 10) 60 2 n = 1 / 10 * 2 ^ n"
      using Suc by simp
    then show ?thesis by (simp add: sleep_generator_step_def Let_def min_def)
  next
    case False
    then have "exponential_sleep_generator (1 / 10) 60 2 n = 60"
      using Suc by simp
    moreover have "(1 / 10 * 2 ^ Suc n :: real) > 60" using False by simp
    ultimately show ?thesis by (simp add: sleep_generator_step_def Let_def min_def)
  qed
qed

lemma execute_request_loop_retries:
  assumes "\<forall>x \<in> set pre. transient x"
  shows "execute_request_loop retry_statuses a (exponential_sleep_generator (1 / 10) 60 2 a)
           (pre @ outs) tr =
         execute_request_loop retry_statuses (a + length pre)
           (exponential_sleep_generator (1 / 10) 60 2 (a + length pre)) outs
           \<lparr>slept = slept tr @ map (exponential_sleep_generator (1 / 10) 60 2) [a..<a + length pre],
            logged = logged tr @ map (exponential_sleep_generator (1 / 10) 60 2)
                       (filter (\<lambda>n. n \<ge> 3) [a..<a + length pre])\<rparr>"
  using assms
proof (induction pre arbitrary: a tr)
  case Nil
  show ?case by (cases tr) simp
next
  case (Cons x pre)
  have tx: "transient x" and tp: "\<forall>y \<in> set pre. transient y" using Cons.prems by auto
  have step: "execute_request_loop retry_statuses a (exponential_sleep_generator (1 / 10) 60 2 a)
                ((x # pre) @ outs) tr =
              execute_request_loop retry_statuses (Suc a)
                (exponential_sleep_generator (1 / 10) 60 2 (Suc a)) (pre @ outs)
                \<lparr>slept = slept tr @ [exponential_sleep_generator (1 / 10) 60 2 a],
                 logged = (if a \<ge> 3 then logged tr @ [exponential_sleep_generator (1 / 10) 60 2 a]
                           else logged tr)\<rparr>"
    using tx by (cases x) (simp_all add: retry_statuses_def)
  have upt: "[a..<a + length (x # pre)] = a # [Suc a..<Suc a + length pre]"
    by (simp add: upt_rec)
  show ?case
    unfolding step Cons.IH [OF tp] upt by simp
qed


lemma execute_request_loop_exhausted:
  "\<forall>x \<in> set outs. transient x \<Longrightarrow> execute_request_loop retry_statuses a b outs tr = None"
proof (induction outs arbitrary: a b tr)
  case Nil
  show ?case by simp
next
  case (Cons x outs)
  then show ?case by (cases x) (simp_all add: retry_statuses_def)
qed

lemma execute_request_loop_final:
  "\<not> transient out \<Longrightarrow>
   execute_request_loop retry_statuses a b (out # rest) tr = Some (final_result out, tr)"
  by (cases out) (simp_all add: retry_statuses_def)

text \<open>
  C7. While the attempts fail transiently (one of the three caught transport errors,
  or a status among 429, 500, 502, 503, 504) the executor retries, and if every
  answer is of that kind it has not returned. The first attempt that is not transient
  ends the call at once: its response (or its exception) goes to the caller, and the
  delays slept until then are \<open>min (0.1 * 2^n) 60\<close> after attempt \<open>n\<close>, counted from 0;
  those from attempt 3 on are reported to the log callback.
\<close>

theorem execute_request_retries_exactly_transient:
  assumes "\<forall>x \<in> set pre. transient x"
  shows "execute_request pre = None
         \<and> (\<not> transient out \<longrightarrow>
              execute_request (pre @ out # rest) =
                Some (final_result out,
                      \<lparr>slept = map (\<lambda>n. min (1 / 10 * 2 ^ n) 60) [0..<length pre],
                       logged = map (\<lambda>n. min (1 / 10 * 2 ^ n) 60)
                                  (filter (\<lambda>n. n \<ge> 3) [0..<length pre])\<rparr>))"
proof
  show "execute_request pre = None"
    unfolding execute_request_def using assms by (rule execute_request_loop_exhausted)
next
  have gen: "exponential_sleep_generator (1 / 10) 60 2 = (\<lambda>n. min (1 / 10 * 2 ^ n) 60)"
    by (rule ext) (rule sleep_generator_closed_form)
  have start: "(1 / 10 :: real) = exponential_sleep_generator (1 / 10) 60 2 0"
    by simp
  show "\<not> transient out \<longrightarrow>
        execute_request (pre @ out # rest) =
          Some (final_result out,
                \<lparr>slept = map (\<lambda>n. min (1 / 10 * 2 ^ n) 60) [0..<length pre],
                 logged = map (\<lambda>n. min (1 / 10 * 2 ^ n) 60)
                            (filter (\<lambda>n. n \<ge> 3) [0..<length pre])\<rparr>)"
  proof
    assume nt: "\<not> transient out"
    have "execute_request (pre @ out # rest) =
          execute_request_loop retry_statuses 0 (exponential_sleep_generator (1 / 10) 60 2 0)
            (pre @ out # rest) \<lparr>slept = [], logged = []\<rparr>"
      unfolding execute_request_def by simp
    also have "\<dots> =
          execute_request_loop retry_statuses (0 + length pre)
            (exponential_sleep_generator (1 / 10) 60 2 (0 + length pre)) (out # rest)
            \<lparr>slept = slept \<lparr>slept = [], logged = []\<rparr>
                      @ map (exponential_sleep_generator (1 / 10) 60 2) [0..<0 + length pre],
             logged = logged \<lparr>slept = [], logged = []\<rparr>
                      @ map (exponential_sleep_generator (1 / 10) 60 2)
                          (filter (\<lambda>n. n \<ge> 3) [0..<0 + length pre])\<rparr>"
      by (rule execute_request_loop_retries [OF assms])
    also have "\<dots> =
          Some (final_result out,
                \<lparr>slept = map (\<lambda>n. min (1 / 10 * 2 ^ n) 60) [0..<length pre],
                 logged = map (\<lambda>n. min (1 / 10 * 2 ^ n) 60)
                            (filter (\<lambda>n. n \<ge> 3) [0..<length pre])\<rparr>)"
      unfolding execute_request_loop_final [OF nt] gen by simp
    finally show "execute_request (pre @ out # rest) =
          Some (final_result out,
                \<lparr>slept = map (\<lambda>n. min (1 / 10 * 2 ^ n) 60) [0..<length pre],
                 logged = map (\<lambda>n. min (1 / 10 * 2 ^ n) 60)
                            (filter (\<lambda>n. n \<ge> 3) [0..<length pre])\<rparr>)" .
  qed
qed

theorem execute_request_retries_exactly_transient_witness:
  "execute_request [Response 503, ProtocolError] = None
   \<and> execute_request [Response 503, ProtocolError, Response 404, Response 200] =
       Some (Inr 404, \<lparr>slept = [1 / 10, 1 / 5], logged = []\<rparr>)"
  using execute_request_retries_exactly_transient
          [of "[Response 503, ProtocolError]" "Response 404" "[Response 200]"]
  by simp

subsection \<open>The token manager\<close>

lemma get_token_cases:
  "get_token add fn now k tm = (res, tm', loader_calls) \<Longrightarrow>
     (loader_calls = [] \<and> tm' = expire_slot add now k tm
        \<and> (\<exists>tok. tokens (expire_slot add now k tm) k = Some tok \<and> res = Inr tok))
   \<or> (loader_calls = [k] \<and> tokens (expire_slot add now k tm) k = None)"
  by (auto simp: get_token_def load_slot_def split: option.splits sum.splits prod.splits)

lemma expire_slot_kept:
  "tokens (expire_slot add now k tm) k = Some tok \<Longrightarrow>
     expire_slot add now k tm = tm \<and> tokens tm k = Some tok
     \<and> (\<exists>e. expiration tm = Some e \<and> add now EARLY_EXPIRATION_SECONDS \<le> e)"
  by (auto simp: expire_slot_def split: option.splits if_splits)

lemma expire_slot_expiration: "expiration (expire_slot add now k tm) = expiration tm"
  by (simp add: expire_slot_def split: option.splits)

lemma get_token_keeps_latest:
  assumes inv: "expiration_of_latest m"
    and call: "get_token add fn now k (manager m) = (res, tm', loader_calls)"
  shows "expiration_of_latest (after_call m tm' k fn loader_calls)"
proof -
  from get_token_cases [OF call] show ?thesis
  proof
    assume c: "loader_calls = [] \<and> tm' = expire_slot add now k (manager m)
        \<and> (\<exists>tok. tokens (expire_slot add now k (manager m)) k = Some tok \<and> res = Inr tok)"
    then have "expiration tm' = expiration (manager m)" by (simp add: expire_slot_expiration)
    with inv have "expiration_of_latest (m\<lparr>manager := tm'\<rparr>)"
      by (cases "latest m") (simp_all add: expiration_of_latest_def)
    with c show ?thesis by (simp add: after_call_def)
  next
    assume c: "loader_calls = [k] \<and> tokens (expire_slot add now k (manager m)) k = None"
    show ?thesis
    proof (cases "fn k")
      case (Inl err)
      with call c have "tm' = expire_slot add now k (manager m)"
        by (simp add: get_token_def load_slot_def)
      then have "expiration tm' = expiration (manager m)" by (simp add: expire_slot_expiration)
      with inv have "expiration_of_latest (m\<lparr>manager := tm'\<rparr>)"
        by (cases "latest m") (simp_all add: expiration_of_latest_def)
      with c Inl show ?thesis by (simp add: after_call_def)
    next
      case (Inr te)
      obtain tok e where te: "te = (tok, e)" by (cases te)
      with call c Inr have "expiration tm' = Some e"
        by (auto simp: get_token_def load_slot_def)
      with c Inr te show ?thesis
        by (simp add: after_call_def expiration_of_latest_def)
    qed
  qed
qed

lemma run_calls_keeps_latest:
  "expiration_of_latest m \<Longrightarrow> expiration_of_latest (run_calls add cs m)"
proof (induction cs arbitrary: m)
  case Nil
  then show ?case by simp
next
  case (Cons c cs)
  obtain res tm' lc where
    g: "get_token add (call_loader c) (call_now c) (call_key c) (manager m) = (res, tm', lc)"
    by (cases "get_token add (call_loader c) (call_now c) (call_key c) (manager m)")
  have "expiration_of_latest (after_call m tm' (call_key c) (call_loader c) lc)"
    using get_token_keeps_latest [OF Cons.prems g] .
  then have "expiration_of_latest
      (run_calls add cs (after_call m tm' (call_key c) (call_loader c) lc))"
    by (rule Cons.IH)
  then show ?case using g by simp
qed

text \<open>
  C2, as amended. After any sequence of calls, for any keys, a call \<open>get_token k\<close>
  either does not go to the loader and returns the token cached for \<open>k\<close>, or calls
  the loader once, for \<open>k\<close>, on a manager whose slot for \<open>k\<close> is empty. When the token
  of \<open>k\<close> is the one loaded last and the call does not go to the loader, the float sum
  \<open>now + 300\<close> is at most the expiration that the loader returned with that token
  (equality included); when that sum is greater, the call goes to the loader.
  Nothing is said of the expiration of a token after a token of another key was
  loaded.
\<close>

theorem get_token_cache_of_latest_key:
  assumes run: "run_calls add cs managed_init = m"
    and call: "get_token add fn now k (manager m) = (res, tm', loader_calls)"
  shows "((loader_calls = [] \<and> (\<exists>tok. res = Inr tok \<and> tokens (manager m) k = Some tok)
            \<and> (latest m = Some k \<longrightarrow>
                  (\<exists>e. recorded m k = Some e \<and> add now EARLY_EXPIRATION_SECONDS \<le> e)))
          \<or> (loader_calls = [k] \<and> tokens (expire_slot add now k (manager m)) k = None
             \<and> (res, tm', loader_calls) = load_slot fn k (expire_slot add now k (manager m))))
         \<and> (latest m = Some k \<longrightarrow>
               (\<forall>e. recorded m k = Some e \<and> add now EARLY_EXPIRATION_SECONDS > e
                    \<longrightarrow> loader_calls = [k]))"
proof -
  have "expiration_of_latest (managed_init :: 'a managed)"
    by (simp add: expiration_of_latest_def managed_init_def)
  from run_calls_keeps_latest [OF this, of add cs] run
  have inv: "expiration_of_latest m" by simp
  have main: "(loader_calls = [] \<and> (\<exists>tok. res = Inr tok \<and> tokens (manager m) k = Some tok)
            \<and> (latest m = Some k \<longrightarrow>
                  (\<exists>e. recorded m k = Some e \<and> add now EARLY_EXPIRATION_SECONDS \<le> e)))
          \<or> (loader_calls = [k] \<and> tokens (expire_slot add now k (manager m)) k = None
             \<and> (res, tm', loader_calls) = load_slot fn k (expire_slot add now k (manager m)))"
  proof -
    from get_token_cases [OF call] show ?thesis
    proof
      assume c: "loader_calls = [] \<and> tm' = expire_slot add now k (manager m)
          \<and> (\<exists>tok. tokens (expire_slot add now k (manager m)) k = Some tok \<and> res = Inr tok)"
      then obtain tok where t: "tokens (expire_slot add now k (manager m)) k = Some tok"
        and r: "res = Inr tok" by blast
      from expire_slot_kept [OF t] obtain e where
        e: "tokens (manager m) k = Some tok" "expiration (manager m) = Some e"
           "add now EARLY_EXPIRATION_SECONDS \<le> e"
        by blast
      have "latest m = Some k \<longrightarrow>
              (\<exists>e. recorded m k = Some e \<and> add now EARLY_EXPIRATION_SECONDS \<le> e)"
      proof
        assume "latest m = Some k"
        with inv obtain e' where "expiration (manager m) = Some e'" "recorded m k = Some e'"
          by (auto simp: expiration_of_latest_def)
        with e(2) have "recorded m k = Some e" by simp
        with e(3) show "\<exists>e. recorded m k = Some e \<and> add now EARLY_EXPIRATION_SECONDS \<le> e"
          by blast
      qed
      with c r e show ?thesis by blast
    next
      assume c: "loader_calls = [k] \<and> tokens (expire_slot add now k (manager m)) k = None"
      with call show ?thesis by (simp add: get_token_def)
    qed
  qed
  have "latest m = Some k \<longrightarrow>
          (\<forall>e. recorded m k = Some e \<and> add now EARLY_EXPIRATION_SECONDS > e
               \<longrightarrow> loader_calls = [k])"
    using main by auto
  with main show ?thesis by blast
qed

theorem get_token_cache_of_latest_key_witness:
  "get_token whole_add (const_loader (3::nat) 9000) 600 ''acct2''
     (manager (run_calls whole_add
        [\<lparr>call_now = 0, call_key = ''acct1'', call_loader = const_loader 1 1000\<rparr>,
         \<lparr>call_now = 0, call_key = ''acct2'', call_loader = const_loader 2 5000\<rparr>] managed_init))
   = (Inr 2, \<lparr>tokens = [''acct1'' \<mapsto> 1, ''acct2'' \<mapsto> 2], expiration = Some 5000\<rparr>, [])
   \<and> latest (run_calls whole_add
        [\<lparr>call_now = 0, call_key = ''acct1'', call_loader = const_loader (1::nat) 1000\<rparr>,
         \<lparr>call_now = 0, call_key = ''acct2'', call_loader = const_loader 2 5000\<rparr>] managed_init)
     = Some ''acct2''
   \<and> recorded (run_calls whole_add
        [\<lparr>call_now = 0, call_key = ''acct1'', call_loader = const_loader (1::nat) 1000\<rparr>,
         \<lparr>call_now = 0, call_key = ''acct2'', call_loader = const_loader 2 5000\<rparr>] managed_init)
       ''acct2'' = Some 5000
   \<and> whole_add 600 EARLY_EXPIRATION_SECONDS \<le> 5000
   \<and> get_token whole_add (const_loader (3::nat) 9000) 4800 ''acct2''
     (manager (run_calls whole_add
        [\<lparr>call_now = 0, call_key = ''acct1'', call_loader = const_loader 1 1000\<rparr>,
         \<lparr>call_now = 0, call_key = ''acct2'', call_loader = const_loader 2 5000\<rparr>] managed_init))
   = (Inr 3, \<lparr>tokens = [''acct1'' \<mapsto> 1, ''acct2'' \<mapsto> 3], expiration = Some 9000\<rparr>, [''acct2''])"
  using get_token_cache_of_latest_key
    [of whole_add
        "[\<lparr>call_now = 0, call_key = ''acct1'', call_loader = const_loader (1::nat) 1000\<rparr>,
          \<lparr>call_now = 0, call_key = ''acct2'', call_loader = const_loader 2 5000\<rparr>]"
        "\<lparr>manager = \<lparr>tokens = [''acct1'' \<mapsto> 1, ''acct2'' \<mapsto> 2], expiration = Some 5000\<rparr>,
          recorded = [''acct1'' \<mapsto> 1000, ''acct2'' \<mapsto> 5000], latest = Some ''acct2''\<rparr>"
        "const_loader 3 9000" 600 "''acct2''" "Inr 2"
        "\<lparr>tokens = [''acct1'' \<mapsto> 1, ''acct2'' \<mapsto> 2], expiration = Some 5000\<rparr>" "[]"]
    get_token_cache_of_latest_key
    [of whole_add
        "[\<lparr>call_now = 0, call_key = ''acct1'', call_loader = const_loader (1::nat) 1000\<rparr>,
          \<lparr>call_now = 0, call_key = ''acct2'', call_loader = const_loader 2 5000\<rparr>]"
        "\<lparr>manager = \<lparr>tokens = [''acct1'' \<mapsto> 1, ''acct2'' \<mapsto> 2], expiration = Some 5000\<rparr>,
          recorded = [''acct1'' \<mapsto> 1000, ''acct2'' \<mapsto> 5000], latest = Some ''acct2''\<rparr>"
        "const_loader 3 9000" 4800 "''acct2''" "Inr 3"
        "\<lparr>tokens = [''acct1'' \<mapsto> 1, ''acct2'' \<mapsto> 3], expiration = Some 9000\<rparr>" "[''acct2'']"]
  by (simp add: get_token_def load_slot_def expire_slot_def token_manager_init_def
        managed_init_def after_call_def const_loader_def whole_add_def
        EARLY_EXPIRATION_SECONDS_def)

text \<open>
  C2, as stated, fails at the margin: a token loaded with expiration 1000 is still
  served from the cache at \<open>now = 700\<close>, where \<open>now + 300\<close> (the floats 700 and 300 add
  up to exactly 1000) is not strictly less than 1000; the code clears the slot only
  when \<open>now + 300 > expiration\<close>.
\<close>

theorem get_token_cached_at_margin:
  "get_token whole_add (const_loader (2::nat) 5000) 700 ''acct''
     (manager (run_calls whole_add
        [\<lparr>call_now = 0, call_key = ''acct'', call_loader = const_loader 1 1000\<rparr>] managed_init))
   = (Inr 1, \<lparr>tokens = [''acct'' \<mapsto> 1], expiration = Some 1000\<rparr>, [])
   \<and> recorded (run_calls whole_add
        [\<lparr>call_now = 0, call_key = ''acct'', call_loader = const_loader (1::nat) 1000\<rparr>] managed_init)
       ''acct'' = Some 1000
   \<and> \<not> (whole_add 700 EARLY_EXPIRATION_SECONDS < 1000)"
  by (simp add: get_token_def load_slot_def expire_slot_def token_manager_init_def
        managed_init_def after_call_def const_loader_def whole_add_def
        EARLY_EXPIRATION_SECONDS_def)

text \<open>
  The manager keeps one expiration for all keys. After the token of \<open>acct1\<close>
  (expiration 1000) and then the token of \<open>acct2\<close> (expiration 100000) were loaded,
  the token of \<open>acct1\<close> is still served from the cache at \<open>now = 50000\<close>, long after
  the expiration recorded with it.
\<close>

lemma get_token_shared_expiration:
  "get_token whole_add (const_loader (3::nat) 90000) 50000 ''acct1''
     (manager (run_calls whole_add
        [\<lparr>call_now = 0, call_key = ''acct1'', call_loader = const_loader 1 1000\<rparr>,
         \<lparr>call_now = 0, call_key = ''acct2'', call_loader = const_loader 2 100000\<rparr>] managed_init))
   = (Inr 1, \<lparr>tokens = [''acct1'' \<mapsto> 1, ''acct2'' \<mapsto> 2], expiration = Some 100000\<rparr>, [])
   \<and> recorded (run_calls whole_add
        [\<lparr>call_now = 0, call_key = ''acct1'', call_loader = const_loader (1::nat) 1000\<rparr>,
         \<lparr>call_now = 0, call_key = ''acct2'', call_loader = const_loader 2 100000\<rparr>] managed_init)
       ''acct1'' = Some 1000"
  by (simp add: get_token_def load_slot_def expire_slot_def token_manager_init_def
        managed_init_def after_call_def const_loader_def whole_add_def
        EARLY_EXPIRATION_SECONDS_def)

subsection \<open>Streaming write files\<close>

lemma upload_buf_cases:
  assumes "upload_buf u fin f = (r, f')"
  shows "(r = None \<and> offset f' = offset f + upload_size fin f
            \<and> buf f' = drop (upload_size fin f) (buf f) \<and> upload_size fin f \<le> length (buf f))
         \<or> (r \<noteq> None \<and> offset f' = offset f \<and> buf f' = buf f)
         \<or> (r \<noteq> None \<and> offset f' = offset f
            \<and> buf f' = drop (upload_size fin f) (buf f)
            \<and> r = fst (u (sub f) (offset f) (length (buf f) - upload_size fin f)
                         (take (upload_size fin f) (buf f)) fin))"
proof -
  have le: "upload_size fin f \<le> length (buf f)"
    by (simp add: upload_size_def)
  show ?thesis
    using assms le
    by (auto simp: upload_buf_def Let_def min_def split: if_splits prod.splits option.splits)
qed

lemma upload_buf_chunk_size:
  "upload_buf u fin f = (r, f') \<Longrightarrow> chunk_size f' = chunk_size f \<and> closed f' = closed f"
  by (auto simp: upload_buf_def Let_def split: if_splits prod.splits option.splits)

lemma upload_buf_returns:
  "upload_buf u fin f = (None, f') \<Longrightarrow> offset f' + length (buf f') = offset f + length (buf f)"
  using upload_buf_cases [of u fin f None f'] by auto

lemma write_loop_returns:
  "write_loop u f = (None, f') \<Longrightarrow> offset f' + length (buf f') = offset f + length (buf f)"
proof (induction u f rule: write_loop.induct)
  case (1 u f)
  show ?case
  proof (cases "length (buf f) > chunk_size f")
    case False
    with "1.prems" show ?thesis by simp
  next
    case True
    obtain r g where up: "upload_buf u False f = (r, g)" by (cases "upload_buf u False f")
    show ?thesis
    proof (cases r)
      case None
      with up True "1.prems" have "write_loop u g = (None, f')" by simp
      from "1.IH" [OF True up [symmetric] None this] upload_buf_returns [of u False f g] up None
      show ?thesis by simp
    next
      case (Some e)
      with up True "1.prems" show ?thesis by simp
    qed
  qed
qed

lemma write_stream_returns:
  "write_stream u b f = (Inr n, f') \<Longrightarrow>
   n = length b \<and> offset f' + length (buf f') = offset f + length (buf f) + length b"
proof -
  assume w: "write_stream u b f = (Inr n, f')"
  obtain r g where l: "write_loop u (f\<lparr>buf := buf f @ b\<rparr>) = (r, g)"
    by (cases "write_loop u (f\<lparr>buf := buf f @ b\<rparr>)")
  with w have r: "r = None" "n = length b" "g = f'"
    by (auto simp: write_stream_def split: option.splits)
  from write_loop_returns [OF l [unfolded r]] r show ?thesis by simp
qed

lemma close_returns:
  "close u f = (None, f') \<Longrightarrow> offset f' + length (buf f') = offset f + length (buf f)"
  by (auto simp: close_def split: if_splits prod.splits option.splits dest: upload_buf_returns)

lemma run_write_ops_invariant:
  "run_write_ops u ops (f, accepted, raised) = (f', accepted', raised') \<Longrightarrow>
   (raised \<longrightarrow> raised') \<and>
   (\<not> raised' \<longrightarrow> offset f + length (buf f) = accepted \<longrightarrow>
      offset f' + length (buf f') = accepted')"
proof (induction ops arbitrary: f accepted raised)
  case Nil
  then show ?case by simp
next
  case (Cons op ops)
  show ?case
  proof (cases op)
    case (Write b)
    obtain r g where w: "write_stream u b f = (r, g)" by (cases "write_stream u b f")
    show ?thesis
    proof (cases r)
      case (Inl e)
      with Cons.prems Write w have "run_write_ops u ops (g, accepted, True) = (f', accepted', raised')"
        by simp
      from Cons.IH [OF this] show ?thesis by simp
    next
      case (Inr n)
      with Cons.prems Write w
      have "run_write_ops u ops (g, accepted + n, raised) = (f', accepted', raised')" by simp
      from Cons.IH [OF this] write_stream_returns [OF w [unfolded Inr]]
      show ?thesis by simp
    qed
  next
    case Close
    obtain r g where c: "close u f = (r, g)" by (cases "close u f")
    show ?thesis
    proof (cases r)
      case (Some e)
      with Cons.prems Close c have "run_write_ops u ops (g, accepted, True) = (f', accepted', raised')"
        by simp
      from Cons.IH [OF this] show ?thesis by simp
    next
      case None
      with Cons.prems Close c
      have "run_write_ops u ops (g, accepted, raised) = (f', accepted', raised')" by simp
      from Cons.IH [OF this] close_returns [OF c [unfolded None]]
      show ?thesis by simp
    qed
  qed
qed

lemma upload_buf_called:
  assumes "fin \<or> (chunk_size g \<noteq> 0 \<and> upload_size fin g > 0)"
  shows "fst (upload_buf u fin g) =
           fst (u (sub g) (offset g) (length (buf g) - upload_size fin g)
                  (take (upload_size fin g) (buf g)) fin)
         \<and> sub (snd (upload_buf u fin g)) =
           snd (u (sub g) (offset g) (length (buf g) - upload_size fin g)
                  (take (upload_size fin g) (buf g)) fin)
         \<and> buf (snd (upload_buf u fin g)) = drop (upload_size fin g) (buf g)
         \<and> offset (snd (upload_buf u fin g)) =
           (if fst (u (sub g) (offset g) (length (buf g) - upload_size fin g)
                      (take (upload_size fin g) (buf g)) fin) = None
            then offset g + upload_size fin g else offset g)"
proof -
  define n where "n = upload_size fin g"
  have le: "n \<le> length (buf g)" by (simp add: n_def upload_size_def)
  hence len: "length (take n (buf g)) = n" by simp
  obtain hr x where h: "u (sub g) (offset g) (length (buf g) - n) (take n (buf g)) fin = (hr, x)"
    by (cases "u (sub g) (offset g) (length (buf g) - n) (take n (buf g)) fin")
  have ub: "upload_buf u fin g =
        (case u (sub g) (offset g) (length (buf g) - n) (take n (buf g)) fin of
             (Some err, x) \<Rightarrow> (Some err, g\<lparr>buf := drop n (buf g), sub := x\<rparr>)
           | (None, x) \<Rightarrow> (None, g\<lparr>buf := drop n (buf g), sub := x, offset := offset g + n\<rparr>))"
  proof (cases fin)
    case True
    thus ?thesis
      unfolding upload_buf_def Let_def n_def [symmetric] using len by (simp split: prod.split option.split)
  next
    case False
    with assms have "chunk_size g \<noteq> 0" "0 < n" by (simp_all add: n_def)
    thus ?thesis
      unfolding upload_buf_def Let_def n_def [symmetric] using len False by (simp split: prod.split option.split)
  qed
  show ?thesis
    unfolding n_def [symmetric] ub h by (cases hr) simp_all
qed

lemma upload_buf_not_called:
  assumes "\<not> (fin \<or> (chunk_size g \<noteq> 0 \<and> upload_size fin g > 0))"
  shows "fst (upload_buf u fin g) \<noteq> None \<and> snd (upload_buf u fin g) = g"
  using assms by (auto simp: upload_buf_def)

text \<open>
  C3, as amended. On a write stream no call of which has raised, \<open>offset\<close> plus the
  length of the pending buffer is the number of bytes accepted from the caller. In
  \<open>_upload_buf\<close>, whenever \<open>_upload_chunk\<close> is called (always when finalizing, otherwise
  when the chunk size is not 0 and the buffer holds a whole chunk), the chunk has
  been cut from the pending buffer before the call and stays cut whatever the call
  does; \<open>_upload_buf\<close> raises exactly what \<open>_upload_chunk\<close> raises, and the offset
  advances, by the length of the chunk, exactly when \<open>_upload_chunk\<close> returns: when it
  raises, the offset stays and the chunk is in neither. When \<open>_upload_chunk\<close> is not
  called, \<open>_upload_buf\<close> raises and changes nothing.
\<close>

theorem write_stream_offset_invariant:
  assumes "run_write_ops u ops (streaming_write_file_init cs x, 0, False) = (f, accepted, raised)"
  shows "(\<not> raised \<longrightarrow> offset f + length (buf f) = accepted)
         \<and> (fin \<or> (chunk_size g \<noteq> 0 \<and> upload_size fin g > 0) \<longrightarrow>
              fst (upload_buf u fin g) =
                fst (u (sub g) (offset g) (length (buf g) - upload_size fin g)
                       (take (upload_size fin g) (buf g)) fin)
              \<and> sub (snd (upload_buf u fin g)) =
                snd (u (sub g) (offset g) (length (buf g) - upload_size fin g)
                       (take (upload_size fin g) (buf g)) fin)
              \<and> buf (snd (upload_buf u fin g)) = drop (upload_size fin g) (buf g)
              \<and> offset (snd (upload_buf u fin g)) =
                (if fst (u (sub g) (offset g) (length (buf g) - upload_size fin g)
                           (take (upload_size fin g) (buf g)) fin) = None
                 then offset g + upload_size fin g else offset g))
         \<and> (\<not> (fin \<or> (chunk_size g \<noteq> 0 \<and> upload_size fin g > 0)) \<longrightarrow>
              fst (upload_buf u fin g) \<noteq> None \<and> snd (upload_buf u fin g) = g)"
proof (intro conjI)
  show "\<not> raised \<longrightarrow> offset f + length (buf f) = accepted"
    using run_write_ops_invariant [OF assms] by (simp add: streaming_write_file_init_def)
next
  show "fin \<or> (chunk_size g \<noteq> 0 \<and> upload_size fin g > 0) \<longrightarrow>
              fst (upload_buf u fin g) =
                fst (u (sub g) (offset g) (length (buf g) - upload_size fin g)
                       (take (upload_size fin g) (buf g)) fin)
              \<and> sub (snd (upload_buf u fin g)) =
                snd (u (sub g) (offset g) (length (buf g) - upload_size fin g)
                       (take (upload_size fin g) (buf g)) fin)
              \<and> buf (snd (upload_buf u fin g)) = drop (upload_size fin g) (buf g)
              \<and> offset (snd (upload_buf u fin g)) =
                (if fst (u (sub g) (offset g) (length (buf g) - upload_size fin g)
                           (take (upload_size fin g) (buf g)) fin) = None
                 then offset g + upload_size fin g else offset g)"
    using upload_buf_called [of fin g u] by blast
next
  show "\<not> (fin \<or> (chunk_size g \<noteq> 0 \<and> upload_size fin g > 0)) \<longrightarrow>
              fst (upload_buf u fin g) \<noteq> None \<and> snd (upload_buf u fin g) = g"
    using upload_buf_not_called [of fin g u] by blast
qed

theorem write_stream_offset_invariant_witness:
  "run_write_ops (google_upload_chunk (http_answering 200)) [Write [1, 2, 3], Close]
     (streaming_write_file_init GOOGLE_CHUNK_SIZE
        \<lparr>upload_url = ''session'', google_world = []\<rparr>, 0, False) =
   (\<lparr>offset = 3, buf = [], chunk_size = 1048576, closed = True,
      sub = \<lparr>upload_url = ''session'',
              google_world =
                [\<lparr>http_method = ''PUT'', url = Location ''session'', params = [],
                  headers = [(''Content-Type'', Text ''application/octet-stream''),
                             (''Content-Range'', ContentRange 0 2 (Some 3))],
                  data = Bytes [1, 2, 3]\<rparr>]\<rparr>\<rparr>, 3, False)
   \<and> (3::nat) + length ([]::nat list) = 3
   \<and> upload_buf (google_upload_chunk (http_answering 200)) False
       \<lparr>offset = 0, buf = [1, 2, 3], chunk_size = 2, closed = False,
        sub = \<lparr>upload_url = ''session'', google_world = []\<rparr>\<rparr> =
     (Some AssertionError,
      \<lparr>offset = 0, buf = [3], chunk_size = 2, closed = False,
       sub = \<lparr>upload_url = ''session'',
               google_world =
                 [\<lparr>http_method = ''PUT'', url = Location ''session'', params = [],
                   headers = [(''Content-Type'', Text ''application/octet-stream''),
                              (''Content-Range'', ContentRange 0 1 None)],
                   data = Bytes [1, 2]\<rparr>]\<rparr>\<rparr>)
   \<and> upload_buf (google_upload_chunk (http_answering 200)) True
       \<lparr>offset = 0, buf = [1, 2, 3], chunk_size = 2, closed = False,
        sub = \<lparr>upload_url = ''session'', google_world = []\<rparr>\<rparr> =
     (None,
      \<lparr>offset = 3, buf = [], chunk_size = 2, closed = False,
       sub = \<lparr>upload_url = ''session'',
               google_world =
                 [\<lparr>http_method = ''PUT'', url = Location ''session'', params = [],
                   headers = [(''Content-Type'', Text ''application/octet-stream''),
                              (''Content-Range'', ContentRange 0 2 (Some 3))],
                   data = Bytes [1, 2, 3]\<rparr>]\<rparr>\<rparr>)
   \<and> upload_buf (google_upload_chunk (http_answering 200)) False
       \<lparr>offset = 0, buf = [1], chunk_size = 2, closed = False,
        sub = \<lparr>upload_url = ''session'', google_world = []\<rparr>\<rparr> =
     (Some AssertionError,
      \<lparr>offset = 0, buf = [1], chunk_size = 2, closed = False,
       sub = \<lparr>upload_url = ''session'', google_world = []\<rparr>\<rparr>)"
proof -
  let ?u = "google_upload_chunk (http_answering 200)"
  let ?x = "\<lparr>upload_url = ''session'', google_world = ([]::request list)\<rparr>"
  let ?f = "\<lparr>offset = 3, buf = [], chunk_size = 1048576, closed = True,
      sub = \<lparr>upload_url = ''session'',
              google_world =
                [\<lparr>http_method = ''PUT'', url = Location ''session'', params = [],
                  headers = [(''Content-Type'', Text ''application/octet-stream''),
                             (''Content-Range'', ContentRange 0 2 (Some 3))],
                  data = Bytes [1, 2, 3]\<rparr>]\<rparr>\<rparr>"
  have run: "run_write_ops ?u [Write [1, 2, 3], Close]
               (streaming_write_file_init GOOGLE_CHUNK_SIZE ?x, 0, False) = (?f, 3, False)"
    by (simp add: write_stream_def close_def upload_buf_def upload_size_def
          google_upload_chunk_def http_answering_def plain_response_def
          streaming_write_file_init_def GOOGLE_CHUNK_SIZE_def Let_def)
  note t = write_stream_offset_invariant [OF run]
  have 1: "offset ?f + length (buf ?f) = 3" using t [of False ?f] by simp
  let ?g = "\<lparr>offset = 0, buf = [1, 2, 3], chunk_size = 2, closed = False, sub = ?x\<rparr>"
  let ?h = "\<lparr>offset = 0, buf = [1], chunk_size = 2, closed = False, sub = ?x\<rparr>"
  have called: "chunk_size ?g \<noteq> 0 \<and> upload_size False ?g > 0" "\<not> (chunk_size ?h \<noteq> 0 \<and> upload_size False ?h > 0)"
    by (simp_all add: upload_size_def)
  from t [of False ?g] called(1)
  have 2: "fst (upload_buf ?u False ?g) = Some AssertionError
           \<and> buf (snd (upload_buf ?u False ?g)) = [3]
           \<and> offset (snd (upload_buf ?u False ?g)) = 0"
    by (simp add: upload_size_def google_upload_chunk_def http_answering_def plain_response_def
          Let_def)
  from t [of True ?g]
  have 3: "fst (upload_buf ?u True ?g) = None
           \<and> buf (snd (upload_buf ?u True ?g)) = []
           \<and> offset (snd (upload_buf ?u True ?g)) = 3"
    by (simp add: upload_size_def google_upload_chunk_def http_answering_def plain_response_def
          Let_def)
  from t [of False ?h] called(2)
  have 4: "fst (upload_buf ?u False ?h) \<noteq> None \<and> snd (upload_buf ?u False ?h) = ?h"
    by simp
  have e: "upload_buf ?u False ?g =
     (Some AssertionError,
      \<lparr>offset = 0, buf = [3], chunk_size = 2, closed = False,
       sub = \<lparr>upload_url = ''session'',
               google_world =
                 [\<lparr>http_method = ''PUT'', url = Location ''session'', params = [],
                   headers = [(''Content-Type'', Text ''application/octet-stream''),
                              (''Content-Range'', ContentRange 0 1 None)],
                   data = Bytes [1, 2]\<rparr>]\<rparr>\<rparr>)"
    "upload_buf ?u True ?g =
     (None,
      \<lparr>offset = 3, buf = [], chunk_size = 2, closed = False,
       sub = \<lparr>upload_url = ''session'',
               google_world =
                 [\<lparr>http_method = ''PUT'', url = Location ''session'', params = [],
                   headers = [(''Content-Type'', Text ''application/octet-stream''),
                              (''Content-Range'', ContentRange 0 2 (Some 3))],
                   data = Bytes [1, 2, 3]\<rparr>]\<rparr>\<rparr>)"
    "upload_buf ?u False ?h = (Some AssertionError, ?h)"
    by (simp_all add: upload_buf_def upload_size_def google_upload_chunk_def
          http_answering_def plain_response_def Let_def)
  from run 1 2 3 4 e show ?thesis by simp
qed

text \<open>
  C3, as stated, fails once an upload fails. A Google write stream takes 1048576
  bytes (one chunk size: nothing is uploaded yet), then one more byte; the upload of
  the first chunk is answered with 404 and \<open>write\<close> raises. The chunk has already been
  cut from the buffer: the offset is 0 and one byte is pending, against 1048576
  bytes accepted by the first call.
\<close>

theorem write_stream_chunk_lost:
  "offset (fst lost_chunk_run) = 0
   \<and> buf (fst lost_chunk_run) = [0]
   \<and> fst (snd lost_chunk_run) = 1048576
   \<and> snd (snd lost_chunk_run) = True
   \<and> offset (fst lost_chunk_run) + length (buf (fst lost_chunk_run)) \<noteq> fst (snd lost_chunk_run)"
  by (simp add: lost_chunk_run_def write_stream_def close_def upload_buf_def upload_size_def
        google_upload_chunk_def http_answering_def plain_response_def
        streaming_write_file_init_def GOOGLE_CHUNK_SIZE_def Let_def)

subsection \<open>Azure append blocks answered with 412\<close>

text \<open>
  C1. The claim has the stream invalidated and \<open>ConcurrentWriteFailure\<close> raised when
  an append-block PUT is answered with 412. In the code 412 passes the same
  assertion as 201 and nothing is raised: on a blob that another writer has
  advanced, \<open>write\<close> of three bytes and \<open>close\<close> both return, the offset moves on to 3
  and the stream is closed, after one \<open>appendblock\<close> (answered 412) and one
  \<open>properties\<close> request.
\<close>

theorem azure_append_conflict_not_raised:
  "snd (snd conflict_run) = False
   \<and> offset (fst conflict_run) = 3
   \<and> buf (fst conflict_run) = []
   \<and> closed (fst conflict_run) = True
   \<and> map params (azure_world (sub (fst conflict_run))) =
       [[(''comp'', ''appendblock'')], [(''comp'', ''properties'')]]
   \<and> fst (http_append_conflict (appendblock_request (Location ''blob'') [1, 2, 3] 0) []) = Inr (plain_response 412)"
  by (simp add: conflict_run_def write_stream_def close_def upload_buf_def upload_size_def
        azure_upload_chunk_def http_append_conflict_def plain_response_def
        appendblock_request_def properties_request_def
        streaming_write_file_init_def AZURE_MAX_CHUNK_SIZE_def Let_def)

subsection \<open>Streaming read files\<close>

lemma ensure_body_Return:
  assumes "ensure_body s evs = Some (Return r s1 evs1)"
  shows "\<exists>e. evs = e # evs1 \<and> (e = GetStatus 416 \<longrightarrow> r = Inr 0)
             \<and> (r = Inr 0 \<longrightarrow> s1 = s\<lparr>body := Some (EmptyBody (roffset s))\<rparr>)
             \<and> (r \<noteq> Inr 0 \<longrightarrow> s1 = s \<and> (\<exists>err. r = Inl err)) \<and> body s = None"
proof (cases "body s")
  case (Some b)
  with assms show ?thesis by (simp add: ensure_body_def)
next
  case None
  with assms show ?thesis
    by (cases "(roffset s, evs)" rule: get_file.cases)
       (auto simp: ensure_body_def split: if_splits)
qed

lemma ensure_body_Continue:
  assumes "ensure_body s evs = Some (Continue u s1 evs1)"
  shows "(\<exists>c. evs = c @ evs1) \<and> roffset s1 = roffset s \<and> rsize s1 = rsize s
         \<and> (body s \<noteq> None \<longrightarrow> s1 = s)
         \<and> (body s = None \<longrightarrow> body s1 = Some (HttpBody (roffset s)))"
proof (cases "body s")
  case (Some b)
  with assms show ?thesis by (simp add: ensure_body_def)
next
  case None
  with assms show ?thesis
    by (cases "(roffset s, evs)" rule: get_file.cases)
       (auto simp: ensure_body_def split: if_splits)
qed

lemma attempt_read_Return:
  assumes "attempt_read blen s evs = Some (Return r s1 evs1)"
  shows "(\<exists>e. evs = e # evs1 \<and> e \<noteq> GetStatus 416) \<and> (\<exists>err. r = Inl err)
         \<and> roffset s1 = roffset s \<and> rsize s1 = rsize s
         \<and> (body_at_offset s \<longrightarrow> body_at_offset s1)"
proof -
  obtain b where b: "body s = Some b" using assms
    by (cases "body s") (auto simp: attempt_read_def)
  show ?thesis
  proof (cases b)
    case (EmptyBody p)
    with assms b show ?thesis by (simp add: attempt_read_def)
  next
    case (HttpBody p)
    with assms b show ?thesis
      by (cases "(HttpBody p, blen, evs)" rule: body_readinto.cases)
         (auto simp: attempt_read_def body_at_offset_def split: if_splits)
  qed
qed

lemma attempt_read_break:
  assumes "attempt_read blen s evs = Some (Continue (Some n) s1 evs1)"
  shows "(\<exists>e. evs = e # evs1 \<and> e \<noteq> GetStatus 416) \<and> n \<noteq> 0
         \<and> roffset s1 = roffset s \<and> rsize s1 = rsize s \<and> bytes_read s1 = bytes_read s
         \<and> (body_at_offset s \<longrightarrow>
               (\<exists>b. body s1 = Some b \<and> body_position b = roffset s + int n))"
proof -
  obtain b where b: "body s = Some b" using assms
    by (cases "body s") (auto simp: attempt_read_def)
  show ?thesis
  proof (cases b)
    case (EmptyBody p)
    with assms b show ?thesis by (simp add: attempt_read_def)
  next
    case (HttpBody p)
    with assms b show ?thesis
      by (cases "(HttpBody p, blen, evs)" rule: body_readinto.cases)
         (auto simp: attempt_read_def body_at_offset_def split: if_splits)
  qed
qed

lemma attempt_read_retry:
  assumes "attempt_read blen s evs = Some (Continue None s1 evs1)"
  shows "(\<exists>c. evs = c @ evs1) \<and> roffset s1 = roffset s \<and> rsize s1 = rsize s
         \<and> (body_at_offset s \<longrightarrow> body_at_offset s1)"
proof -
  obtain b where b: "body s = Some b" using assms
    by (cases "body s") (auto simp: attempt_read_def)
  show ?thesis
  proof (cases b)
    case (EmptyBody p)
    with assms b show ?thesis by (auto simp: attempt_read_def body_at_offset_def)
  next
    case (HttpBody p)
    with assms b show ?thesis
      by (cases "(HttpBody p, blen, evs)" rule: body_readinto.cases)
         (auto simp: attempt_read_def body_at_offset_def split: if_splits)
  qed
qed

lemma readinto_loop_returns:
  "readinto_loop blen a b s evs tr = Some (r, s', evs', tr') \<Longrightarrow>
     (\<exists>used. evs = used @ evs' \<and> used \<noteq> [] \<and> (last used = GetStatus 416 \<longrightarrow> r = Inr 0))
   \<and> rsize s' = rsize s
   \<and> (case r of Inl err \<Rightarrow> roffset s' = roffset s | Inr n \<Rightarrow> roffset s' = roffset s + int n)
   \<and> (body_at_offset s \<longrightarrow> body_at_offset s')"
proof (induction blen a b s evs tr rule: readinto_loop.induct)
  case (1 blen attempt backoff s evs tr)
  from "1.prems" obtain t where t: "ensure_body s evs = Some t"
    by (cases "ensure_body s evs") auto
  show ?case
  proof (cases t)
    case (Return r1 s1 evs1)
    with t "1.prems" have eq: "r = r1" "s' = s1" "evs' = evs1" by auto
    from ensure_body_Return [OF t [unfolded Return]] obtain e where
      e: "evs = e # evs1" "e = GetStatus 416 \<longrightarrow> r1 = Inr 0"
         "r1 = Inr 0 \<longrightarrow> s1 = s\<lparr>body := Some (EmptyBody (roffset s))\<rparr>"
         "r1 \<noteq> Inr 0 \<longrightarrow> s1 = s \<and> (\<exists>err. r1 = Inl err)"
      by blast
    have "evs = [e] @ evs' \<and> [e] \<noteq> [] \<and> (last [e] = GetStatus 416 \<longrightarrow> r = Inr 0)"
      using e eq by simp
    then have used: "\<exists>used. evs = used @ evs' \<and> used \<noteq> [] \<and> (last used = GetStatus 416 \<longrightarrow> r = Inr 0)"
      by blast
    show ?thesis
    proof (cases "r1 = Inr 0")
      case True
      with e eq used show ?thesis by (auto simp: body_at_offset_def)
    next
      case False
      with e eq used show ?thesis by auto
    qed
  next
    case (Continue u s1 evs1)
    note C1 = this
    note eb = ensure_body_Continue [OF t [unfolded C1]]
    from eb obtain c1 where c1: "evs = c1 @ evs1" by blast
    have inv1: "body_at_offset s \<longrightarrow> body_at_offset s1"
      using eb by (cases "body s") (auto simp: body_at_offset_def)
    from "1.prems" t C1 obtain t2 where t2: "attempt_read blen s1 evs1 = Some t2"
      by (cases "attempt_read blen s1 evs1") auto
    show ?thesis
    proof (cases t2)
      case (Return r2 s2 evs2)
      with t t2 C1 "1.prems" have eq: "r = r2" "s' = s2" "evs' = evs2" by auto
      from attempt_read_Return [OF t2 [unfolded Return]] obtain e err where
        e: "evs1 = e # evs2" "e \<noteq> GetStatus 416" "r2 = Inl err"
           "roffset s2 = roffset s1" "rsize s2 = rsize s1"
           "body_at_offset s1 \<longrightarrow> body_at_offset s2"
        by blast
      have "evs = (c1 @ [e]) @ evs' \<and> c1 @ [e] \<noteq> []
            \<and> (last (c1 @ [e]) = GetStatus 416 \<longrightarrow> r = Inr 0)"
        using c1 e eq by simp
      then have "\<exists>used. evs = used @ evs' \<and> used \<noteq> [] \<and> (last used = GetStatus 416 \<longrightarrow> r = Inr 0)"
        by blast
      then show ?thesis using e eq eb inv1 by auto
    next
      case (Continue o2 s2 evs2)
      note C2 = this
      show ?thesis
      proof (cases o2)
        case (Some n)
        with t t2 C1 C2 "1.prems"
        have eq: "r = Inr n" "evs' = evs2"
          "s' = s2\<lparr>roffset := roffset s2 + int n, bytes_read := bytes_read s2 + n\<rparr>"
          by auto
        from attempt_read_break [OF t2 [unfolded C2 Some]] obtain e where
          e: "evs1 = e # evs2" "e \<noteq> GetStatus 416"
             "roffset s2 = roffset s1" "rsize s2 = rsize s1"
             "body_at_offset s1 \<longrightarrow> (\<exists>b. body s2 = Some b \<and> body_position b = roffset s1 + int n)"
          by blast
        have "evs = (c1 @ [e]) @ evs' \<and> c1 @ [e] \<noteq> []
              \<and> (last (c1 @ [e]) = GetStatus 416 \<longrightarrow> r = Inr 0)"
          using c1 e eq by simp
        then have "\<exists>used. evs = used @ evs' \<and> used \<noteq> [] \<and> (last used = GetStatus 416 \<longrightarrow> r = Inr 0)"
          by blast
        then show ?thesis using e eq eb inv1 by (auto simp: body_at_offset_def)
      next
        case None
        let ?s3 = "s2\<lparr>failures := failures s2 + 1\<rparr>"
        let ?tr = "\<lparr>slept = slept tr @ [backoff],
                    logged = (if attempt \<ge> 3 then logged tr @ [backoff] else logged tr)\<rparr>"
        from t t2 C1 C2 None "1.prems"
        have rec: "readinto_loop blen (attempt + 1) (sleep_generator_step 60 2 backoff) ?s3 evs2 ?tr
                   = Some (r, s', evs', tr')"
          by simp
        note IH = "1.IH" [OF t [unfolded C1] refl t2 [unfolded C2] refl None rec]
        note ar = attempt_read_retry [OF t2 [unfolded C2 None]]
        from ar obtain c2 where c2: "evs1 = c2 @ evs2" by blast
        from IH obtain used where
          used: "evs2 = used @ evs'" "used \<noteq> []" "last used = GetStatus 416 \<longrightarrow> r = Inr 0"
          by blast
        have "evs = (c1 @ c2 @ used) @ evs' \<and> c1 @ c2 @ used \<noteq> []
              \<and> (last (c1 @ c2 @ used) = GetStatus 416 \<longrightarrow> r = Inr 0)"
          using c1 c2 used by simp
        then have u: "\<exists>used. evs = used @ evs' \<and> used \<noteq> [] \<and> (last used = GetStatus 416 \<longrightarrow> r = Inr 0)"
          by blast
        have inv3: "body_at_offset s \<longrightarrow> body_at_offset ?s3"
          using inv1 ar by (auto simp: body_at_offset_def split: option.splits)
        show ?thesis using u IH eb ar inv3 by (auto split: sum.splits)
      qed
    qed
  qed
qed

lemma readinto_returns:
  assumes "readinto blen s evs = Some (r, s', evs', tr')"
  shows "rsize s' = rsize s
         \<and> (case r of Inl err \<Rightarrow> roffset s' = roffset s | Inr n \<Rightarrow> roffset s' = roffset s + int n)
         \<and> (body_at_offset s \<longrightarrow> body_at_offset s')"
proof (cases "rsize s = roffset s")
  case True
  with assms show ?thesis by (auto simp: readinto_def)
next
  case False
  with assms have "readinto_loop blen 0 (1 / 10) s evs \<lparr>slept = [], logged = []\<rparr>
                   = Some (r, s', evs', tr')"
    by (simp add: readinto_def)
  from readinto_loop_returns [OF this] show ?thesis by blast
qed

lemma seek_returns:
  assumes "seek ofs whence s = (r, s')"
  shows "rsize s' = rsize s \<and> (body_at_offset s \<longrightarrow> body_at_offset s')
         \<and> (case r of Inl err \<Rightarrow> s' = s | Inr n \<Rightarrow> roffset s' = n)"
  using assms by (auto simp: seek_def Let_def body_at_offset_def split: if_splits)

lemma run_read_ops_invariant:
  "run_read_ops ops (s, evs, in_file) = Some (s', evs', in_file') \<Longrightarrow>
   body_at_offset s \<Longrightarrow> (in_file \<longrightarrow> 0 \<le> roffset s \<and> roffset s \<le> rsize s) \<Longrightarrow>
   rsize s' = rsize s \<and> body_at_offset s'
   \<and> (in_file' \<longrightarrow> 0 \<le> roffset s' \<and> roffset s' \<le> rsize s')"
proof (induction ops arbitrary: s evs in_file)
  case Nil
  then show ?case by simp
next
  case (Cons op ops)
  show ?case
  proof (cases op)
    case (Readinto blen)
    from Cons.prems(1) Readinto obtain r s1 evs1 tr1 where
      rd: "readinto blen s evs = Some (r, s1, evs1, tr1)"
      by (cases "readinto blen s evs") auto
    note R = readinto_returns [OF rd]
    show ?thesis
    proof (cases r)
      case (Inl err)
      with Cons.prems(1) Readinto rd
      have run: "run_read_ops ops (s1, evs1, in_file) = Some (s', evs', in_file')" by simp
      have "body_at_offset s1" "in_file \<longrightarrow> 0 \<le> roffset s1 \<and> roffset s1 \<le> rsize s1"
        using R Inl Cons.prems(2,3) by auto
      from Cons.IH [OF run this] R show ?thesis by auto
    next
      case (Inr n)
      let ?w = "in_file \<and> roffset s + int n \<le> rsize s"
      from Cons.prems(1) Readinto rd Inr
      have run: "run_read_ops ops (s1, evs1, ?w) = Some (s', evs', in_file')" by simp
      have "body_at_offset s1" "?w \<longrightarrow> 0 \<le> roffset s1 \<and> roffset s1 \<le> rsize s1"
        using R Inr Cons.prems(2,3) by auto
      from Cons.IH [OF run this] R show ?thesis by auto
    qed
  next
    case (Seek ofs whence)
    obtain r s1 where sk: "seek ofs whence s = (r, s1)" by (cases "seek ofs whence s")
    note S = seek_returns [OF sk]
    show ?thesis
    proof (cases r)
      case (Inl err)
      with Cons.prems(1) Seek sk
      have run: "run_read_ops ops (s1, evs, in_file) = Some (s', evs', in_file')" by simp
      have "body_at_offset s1" "in_file \<longrightarrow> 0 \<le> roffset s1 \<and> roffset s1 \<le> rsize s1"
        using S Inl Cons.prems(2,3) by auto
      from Cons.IH [OF run this] S show ?thesis by auto
    next
      case (Inr n)
      let ?w = "in_file \<and> 0 \<le> n \<and> n \<le> rsize s"
      from Cons.prems(1) Seek sk Inr
      have run: "run_read_ops ops (s1, evs, ?w) = Some (s', evs', in_file')" by simp
      have "body_at_offset s1" "?w \<longrightarrow> 0 \<le> roffset s1 \<and> roffset s1 \<le> rsize s1"
        using S Inr Cons.prems(2) by auto
      from Cons.IH [OF run this] S show ?thesis by auto
    qed
  qed
qed

text \<open>
  C4, as amended. After any sequence of \<open>readinto\<close> and \<open>seek\<close> calls that has returned,
  an open body stands at the offset. \<open>seek\<close> sets the offset to the position asked
  for, whatever it is: \<open>offset\<close>, the current offset plus \<open>offset\<close>, or the size plus
  \<open>offset\<close>. So \<open>0 \<le> offset \<le> size\<close> holds as long as every \<open>seek\<close> asked for a
  position from 0 to the size and no read was given bytes past the size.
\<close>

theorem streaming_read_offset_invariant:
  assumes "0 \<le> sz"
    and "run_read_ops ops (streaming_read_file_init p sz, evs, True) = Some (s, evs', in_file)"
  shows "body_at_offset s
         \<and> (in_file \<longrightarrow> 0 \<le> roffset s \<and> roffset s \<le> rsize s)
         \<and> fst (seek ofs SEEK_SET s) = Inr ofs \<and> roffset (snd (seek ofs SEEK_SET s)) = ofs
         \<and> fst (seek ofs SEEK_CUR s) = Inr (roffset s + ofs)
         \<and> roffset (snd (seek ofs SEEK_CUR s)) = roffset s + ofs
         \<and> fst (seek ofs SEEK_END s) = Inr (rsize s + ofs)
         \<and> roffset (snd (seek ofs SEEK_END s)) = rsize s + ofs"
proof -
  have "body_at_offset (streaming_read_file_init p sz)"
    by (simp add: body_at_offset_def streaming_read_file_init_def)
  moreover have "True \<longrightarrow> 0 \<le> roffset (streaming_read_file_init p sz)
                   \<and> roffset (streaming_read_file_init p sz) \<le> rsize (streaming_read_file_init p sz)"
    using assms(1) by (simp add: streaming_read_file_init_def)
  ultimately have "body_at_offset s \<and> (in_file \<longrightarrow> 0 \<le> roffset s \<and> roffset s \<le> rsize s)"
    using run_read_ops_invariant [OF assms(2)] by blast
  moreover have "fst (seek ofs SEEK_SET s) = Inr ofs \<and> roffset (snd (seek ofs SEEK_SET s)) = ofs
         \<and> fst (seek ofs SEEK_CUR s) = Inr (roffset s + ofs)
         \<and> roffset (snd (seek ofs SEEK_CUR s)) = roffset s + ofs
         \<and> fst (seek ofs SEEK_END s) = Inr (rsize s + ofs)
         \<and> roffset (snd (seek ofs SEEK_END s)) = rsize s + ofs"
    by (simp add: seek_def Let_def SEEK_SET_def SEEK_CUR_def SEEK_END_def)
  ultimately show ?thesis by blast
qed

theorem streaming_read_offset_invariant_witness:
  "run_read_ops [Readinto 4, Seek 1 SEEK_CUR, Readinto 4]
     (streaming_read_file_init ''gs://bucket/blob'' 10,
      [GetStatus 206, BodyGives 3, GetStatus 206, BodyGives 100], True) =
   Some (\<lparr>rsize = 10, rpath = ''gs://bucket/blob'', roffset = 8, body = Some (HttpBody 8),
          requests = 2, failures = 0, bytes_read = 7\<rparr>, [], True)
   \<and> body_at_offset \<lparr>rsize = 10, rpath = ''gs://bucket/blob'', roffset = 8,
                      body = Some (HttpBody 8), requests = 2, failures = 0, bytes_read = 7\<rparr>
   \<and> (0::int) \<le> 8 \<and> (8::int) \<le> 10"
  using streaming_read_offset_invariant
    [of 10 "[Readinto 4, Seek 1 SEEK_CUR, Readinto 4]" "''gs://bucket/blob''"
        "[GetStatus 206, BodyGives 3, GetStatus 206, BodyGives 100]"
        "\<lparr>rsize = 10, rpath = ''gs://bucket/blob'', roffset = 8, body = Some (HttpBody 8),
          requests = 2, failures = 0, bytes_read = 7\<rparr>" "[]" True 0]
  by (simp add: readinto_def ensure_body_def attempt_read_def seek_def Let_def
        streaming_read_file_init_def SEEK_SET_def SEEK_CUR_def SEEK_END_def)

text \<open>
  C4, as stated, fails: \<open>seek\<close> does not clamp. On a file of 5 bytes \<open>seek(-1)\<close> leaves
  the offset at -1 and \<open>seek(1000000)\<close> leaves it at 1000000.
\<close>

theorem seek_leaves_the_file:
  "run_read_ops [Seek (- 1) SEEK_SET] (streaming_read_file_init ''gs://bucket/blob'' 5, [], True) =
     Some (\<lparr>rsize = 5, rpath = ''gs://bucket/blob'', roffset = - 1, body = None,
            requests = 0, failures = 0, bytes_read = 0\<rparr>, [], False)
   \<and> run_read_ops [Seek 1000000 SEEK_SET] (streaming_read_file_init ''gs://bucket/blob'' 5, [], True) =
     Some (\<lparr>rsize = 5, rpath = ''gs://bucket/blob'', roffset = 1000000, body = None,
            requests = 0, failures = 0, bytes_read = 0\<rparr>, [], False)
   \<and> \<not> ((0::int) \<le> - 1) \<and> \<not> ((1000000::int) \<le> 5)"
  by (simp add: seek_def Let_def streaming_read_file_init_def SEEK_SET_def SEEK_CUR_def SEEK_END_def)

text \<open>
  C6. When \<open>readinto\<close> has to issue the ranged GET (no body is open and the offset is
  not the size) and the request is answered with 416, it returns 0 at once and
  raises nothing. More generally, whenever a call of \<open>readinto\<close> returns and the last
  thing it met on the network was a 416 to its ranged GET, after whatever failed
  attempts, what it returns is 0, with the offset where it was.
\<close>

theorem readinto_range_error_is_eof:
  "(body s = None \<and> rsize s \<noteq> roffset s \<longrightarrow>
      readinto blen s (GetStatus 416 # rest) =
        Some (Inr 0, s\<lparr>body := Some (EmptyBody (roffset s))\<rparr>, rest, \<lparr>slept = [], logged = []\<rparr>))
   \<and> (readinto blen s (used @ GetStatus 416 # rest) = Some (r, s', rest, tr) \<longrightarrow>
        r = Inr 0 \<and> roffset s' = roffset s)"
proof
  show "body s = None \<and> rsize s \<noteq> roffset s \<longrightarrow>
      readinto blen s (GetStatus 416 # rest) =
        Some (Inr 0, s\<lparr>body := Some (EmptyBody (roffset s))\<rparr>, rest, \<lparr>slept = [], logged = []\<rparr>)"
    by (simp add: readinto_def ensure_body_def)
next
  show "readinto blen s (used @ GetStatus 416 # rest) = Some (r, s', rest, tr) \<longrightarrow>
        r = Inr 0 \<and> roffset s' = roffset s"
  proof
    assume rd: "readinto blen s (used @ GetStatus 416 # rest) = Some (r, s', rest, tr)"
    have ne: "rsize s \<noteq> roffset s"
    proof
      assume "rsize s = roffset s"
      with rd have "used @ GetStatus 416 # rest = rest" by (simp add: readinto_def)
      then have "length (used @ GetStatus 416 # rest) = length rest" by simp
      then show False by simp
    qed
    with rd have "readinto_loop blen 0 (1 / 10) s (used @ GetStatus 416 # rest)
                    \<lparr>slept = [], logged = []\<rparr> = Some (r, s', rest, tr)"
      by (simp add: readinto_def)
    from readinto_loop_returns [OF this] obtain u where
      u: "used @ GetStatus 416 # rest = u @ rest" "u \<noteq> []" "last u = GetStatus 416 \<longrightarrow> r = Inr 0"
      and off: "case r of Inl err \<Rightarrow> roffset s' = roffset s | Inr n \<Rightarrow> roffset s' = roffset s + int n"
      by blast
    from u(1) have "(used @ [GetStatus 416]) @ rest = u @ rest" by simp
    then have "u = used @ [GetStatus 416]" by (simp only: append_same_eq)
    with u(3) have "r = Inr 0" by simp
    with off show "r = Inr 0 \<and> roffset s' = roffset s" by simp
  qed
qed

theorem readinto_range_error_is_eof_witness:
  "readinto 4 (streaming_read_file_init ''gs://bucket/blob'' 10) [GetStatus 416] =
     Some (Inr 0, \<lparr>rsize = 10, rpath = ''gs://bucket/blob'', roffset = 0,
                   body = Some (EmptyBody 0), requests = 0, failures = 0, bytes_read = 0\<rparr>,
           [], \<lparr>slept = [], logged = []\<rparr>)
   \<and> readinto 4 \<lparr>rsize = 10, rpath = ''gs://bucket/blob'', roffset = 3,
                  body = Some (HttpBody 3), requests = 1, failures = 0, bytes_read = 3\<rparr>
        [BodyGives 0, GetStatus 416] =
     Some (Inr 0, \<lparr>rsize = 10, rpath = ''gs://bucket/blob'', roffset = 3,
                   body = Some (EmptyBody 3), requests = 1, failures = 1, bytes_read = 3\<rparr>,
           [], \<lparr>slept = [1 / 10], logged = []\<rparr>)"
  using readinto_range_error_is_eof
    [of "streaming_read_file_init ''gs://bucket/blob'' 10" 4 "[]" "[]"]
    readinto_range_error_is_eof
    [of "\<lparr>rsize = 10, rpath = ''gs://bucket/blob'', roffset = 3,
          body = Some (HttpBody 3), requests = 1, failures = 0, bytes_read = 3\<rparr>" 4 "[]"
        "[BodyGives 0]" "Inr 0"
        "\<lparr>rsize = 10, rpath = ''gs://bucket/blob'', roffset = 3,
          body = Some (EmptyBody 3), requests = 1, failures = 1, bytes_read = 3\<rparr>"
        "\<lparr>slept = [1 / 10], logged = []\<rparr>"]
  by (simp add: readinto_def ensure_body_def attempt_read_def streaming_read_file_init_def)

subsection \<open>The store's answers\<close>

lemma add_slash_idem: "add_slash (add_slash p) = add_slash p"
  by (simp add: add_slash_def ends_with_slash_def)

lemma listing_present_iff:
  "listing_present (listing [(''prefix'', d), (''delimiter'', ''/''), (''maxResults'', ''1'')] keys)
     = (\<exists>k \<in> set keys. starts_with d k)"
  "listing_present (listing [(''comp'', ''list''), (''restype'', ''container''), (''prefix'', d),
                             (''delimiter'', ''/''), (''maxresults'', ''1'')] keys)
     = (\<exists>k \<in> set keys. starts_with d k)"
  by (auto simp: listing_present_def listing_def Let_def filter_empty_conv)

lemma listing_names_google:
  "google_get_names (listing [(''delimiter'', ''/''), (''prefix'', d)] keys) d = [] \<longleftrightarrow>
     (\<forall>k \<in> set keys. starts_with d k \<longrightarrow> k = d)"
proof -
  have "\<not> has_slash_after d d" by (simp add: has_slash_after_def)
  then show ?thesis
    by (auto simp: google_get_names_def listing_def Let_def filter_empty_conv)
qed

lemma listing_names_azure:
  "azure_get_names (listing [(''comp'', ''list''), (''restype'', ''container''), (''prefix'', d),
                             (''delimiter'', ''/'')] keys) d = [] \<longleftrightarrow>
     (\<forall>k \<in> set keys. starts_with d k \<longrightarrow> k = d)"
proof -
  have "\<not> has_slash_after d d" by (simp add: has_slash_after_def)
  then show ?thesis
    by (auto simp: azure_get_names_def listing_def Let_def filter_empty_conv)
qed

lemma store_buckets_same:
  "buckets st b = Some keys \<Longrightarrow> st\<lparr>buckets := (buckets st)(b \<mapsto> keys)\<rparr> = st"
  by (simp add: map_upd_triv)

lemma store_containers_same:
  "containers st ac = Some keys \<Longrightarrow> st\<lparr>containers := (containers st)(ac \<mapsto> keys)\<rparr> = st"
  by (simp add: map_upd_triv)

lemma google_isfile_store:
  assumes "http_google env = store_google" "google_split_url env path = (b, d)" "d \<noteq> ''''"
    and "buckets (net w) b = Some keys"
  shows "\<exists>w'. google_isfile env path w = (Inr (d \<in> set keys, Map.empty), w') \<and> net w' = net w"
  using assms
  by (auto simp: google_isfile_def execute_google_api_request_def store_google_def
        simple_request_def google_object_url_def object_request_def plain_response_def
        store_buckets_same)

lemma azure_isfile_store:
  assumes "http_azure env = store_azure" "azure_split_url env path = (a, c, d)" "d \<noteq> ''''"
    and "containers (net w) (a, c) = Some keys"
  shows "\<exists>w'. azure_isfile env path w = (Inr (d \<in> set keys, Map.empty), w') \<and> net w' = net w"
  using assms
  by (auto simp: azure_isfile_def execute_azure_api_request_def store_azure_def
        simple_request_def azure_blob_url_def object_request_def plain_response_def
        store_containers_same)

lemma isdir_google_store:
  assumes "http_google env = store_google" "is_google_path env P" "add_slash P = P"
    and "google_split_url env P = (b, d)" "d \<noteq> ''''" "buckets (net w) b = Some keys"
  shows "\<exists>w'. isdir env P w = (Inr (\<exists>k \<in> set keys. starts_with d k), w') \<and> net w' = net w"
  using assms listing_present_iff(1) [of d keys]
  by (auto simp: isdir_def is_local_path_def execute_google_api_request_def store_google_def
        simple_request_def Let_def)

lemma isdir_azure_store:
  assumes "http_azure env = store_azure" "is_azure_path env P" "\<not> is_google_path env P"
    and "add_slash P = P"
    and "azure_split_url env P = (a, c, d)" "d \<noteq> ''''" "containers (net w) (a, c) = Some keys"
  shows "\<exists>w'. isdir env P w = (Inr (\<exists>k \<in> set keys. starts_with d k), w') \<and> net w' = net w"
  using assms listing_present_iff(2) [of d keys]
  by (auto simp: isdir_def is_local_path_def execute_azure_api_request_def store_azure_def
        simple_request_def Let_def listing_def)

lemma exists_google_store:
  assumes "http_google env = store_google" "is_google_path env P" "add_slash P = P"
    and "google_split_url env P = (b, d)" "d \<noteq> ''''" "buckets (net w) b = Some keys"
  shows "\<exists>w'. exists env P w = (Inr (\<exists>k \<in> set keys. starts_with d k), w') \<and> net w' = net w"
proof -
  from google_isfile_store [OF assms(1,4,5,6)] obtain w1 where
    f: "google_isfile env P w = (Inr (d \<in> set keys, Map.empty), w1)" and n1: "net w1 = net w"
    by blast
  show ?thesis
  proof (cases "d \<in> set keys")
    case True
    then have "\<exists>k \<in> set keys. starts_with d k"
      by (rule bexI [rotated]) (simp add: starts_with_def)
    with f n1 True assms(2) show ?thesis by (simp add: exists_def is_local_path_def)
  next
    case False
    from isdir_google_store [OF assms(1,2,3,4,5), of w1 keys] assms(6) n1 obtain w2 where
      "isdir env P w1 = (Inr (\<exists>k \<in> set keys. starts_with d k), w2)" "net w2 = net w"
      by auto
    with f False assms(2) show ?thesis by (simp add: exists_def is_local_path_def)
  qed
qed

lemma exists_azure_store:
  assumes "http_azure env = store_azure" "is_azure_path env P" "\<not> is_google_path env P"
    and "add_slash P = P"
    and "azure_split_url env P = (a, c, d)" "d \<noteq> ''''" "containers (net w) (a, c) = Some keys"
  shows "\<exists>w'. exists env P w = (Inr (\<exists>k \<in> set keys. starts_with d k), w') \<and> net w' = net w"
proof -
  from azure_isfile_store [OF assms(1,5,6,7)] obtain w1 where
    f: "azure_isfile env P w = (Inr (d \<in> set keys, Map.empty), w1)" and n1: "net w1 = net w"
    by blast
  show ?thesis
  proof (cases "d \<in> set keys")
    case True
    then have "\<exists>k \<in> set keys. starts_with d k"
      by (rule bexI [rotated]) (simp add: starts_with_def)
    with f n1 True assms(2,3) show ?thesis by (simp add: exists_def is_local_path_def)
  next
    case False
    from isdir_azure_store [OF assms(1,2,3,4,5,6), of w1 keys] assms(7) n1 obtain w2 where
      "isdir env P w1 = (Inr (\<exists>k \<in> set keys. starts_with d k), w2)" "net w2 = net w"
      by auto
    with f False assms(2,3) show ?thesis by (simp add: exists_def is_local_path_def)
  qed
qed

lemma list_suffixes_google_store:
  assumes "http_google env = store_google" "is_google_path env P"
    and "google_split_url env P = (b, d)" "buckets (net w) b = Some keys"
  shows "\<exists>x w'. list_suffixes_next (Suc pages) env P True w = Some (Inr x, w') \<and> net w' = net w
           \<and> (x = None \<longleftrightarrow> (\<forall>k \<in> set keys. starts_with d k \<longrightarrow> k = d))"
proof (cases "google_get_names (listing [(''delimiter'', ''/''), (''prefix'', d)] keys) d")
  case Nil
  then have "\<forall>k \<in> set keys. starts_with d k \<longrightarrow> k = d"
    using listing_names_google [of d keys] by simp
  moreover have "members (listing [(''delimiter'', ''/''), (''prefix'', d)] keys) ''nextPageToken'' = None"
    by (simp add: listing_def Let_def)
  ultimately show ?thesis using assms Nil
    by (simp add: list_suffixes_next_def execute_google_api_request_def store_google_def
          simple_request_def)
next
  case (Cons name names)
  then have "\<not> (\<forall>k \<in> set keys. starts_with d k \<longrightarrow> k = d)"
    using listing_names_google [of d keys] by simp
  then show ?thesis using assms Cons
    by (simp add: list_suffixes_next_def execute_google_api_request_def store_google_def
          simple_request_def)
qed

lemma list_suffixes_azure_store:
  assumes "http_azure env = store_azure" "is_azure_path env P" "\<not> is_google_path env P"
    and "azure_split_url env P = (a, c, d)" "containers (net w) (a, c) = Some keys"
  shows "\<exists>x w'. list_suffixes_next (Suc pages) env P True w = Some (Inr x, w') \<and> net w' = net w
           \<and> (x = None \<longleftrightarrow> (\<forall>k \<in> set keys. starts_with d k \<longrightarrow> k = d))"
proof (cases "azure_get_names (listing [(''comp'', ''list''), (''restype'', ''container''),
                 (''prefix'', d), (''delimiter'', ''/'')] keys) d")
  case Nil
  then have "\<forall>k \<in> set keys. starts_with d k \<longrightarrow> k = d"
    using listing_names_azure [of d keys] by simp
  moreover have "members (listing [(''comp'', ''list''), (''restype'', ''container''),
                 (''prefix'', d), (''delimiter'', ''/'')] keys) ''NextMarker'' = None"
    "members (listing [(''comp'', ''list''), (''restype'', ''container''),
                 (''prefix'', d), (''delimiter'', ''/'')] keys) ''EnumerationResults'' \<noteq> None"
    by (simp_all add: listing_def Let_def)
  ultimately show ?thesis using assms Nil
    by (simp add: list_suffixes_next_def execute_azure_api_request_def store_azure_def
          simple_request_def)
next
  case (Cons name names)
  then have "\<not> (\<forall>k \<in> set keys. starts_with d k \<longrightarrow> k = d)"
    using listing_names_azure [of d keys] by simp
  moreover have
    "members (listing [(''comp'', ''list''), (''restype'', ''container''),
                 (''prefix'', d), (''delimiter'', ''/'')] keys) ''EnumerationResults'' \<noteq> None"
    by (simp_all add: listing_def Let_def)
  ultimately show ?thesis using assms Cons
    by (simp add: list_suffixes_next_def execute_azure_api_request_def store_azure_def
          simple_request_def)
qed

lemma delete_marker_google_store:
  assumes "http_google env = store_google" "is_google_path env P"
    and "google_split_url env P = (b, d)" "buckets (net w) b = Some keys" "d \<in> set keys"
  shows "\<exists>w'. delete_marker env P w = (None, w')
           \<and> net w' = (net w)\<lparr>buckets := (buckets (net w))(b \<mapsto> removeAll d keys)\<rparr>"
  using assms
  by (simp add: delete_marker_def execute_google_api_request_def store_google_def
        simple_request_def google_object_url_def object_request_def plain_response_def)

lemma delete_marker_azure_store:
  assumes "http_azure env = store_azure" "is_azure_path env P" "\<not> is_google_path env P"
    and "azure_split_url env P = (a, c, d)" "containers (net w) (a, c) = Some keys" "d \<in> set keys"
  shows "\<exists>w'. delete_marker env P w = (None, w')
           \<and> net w' = (net w)\<lparr>containers := (containers (net w))((a, c) \<mapsto> removeAll d keys)\<rparr>"
  using assms
  by (simp add: delete_marker_def execute_azure_api_request_def store_azure_def
        simple_request_def azure_blob_url_def object_request_def plain_response_def)

lemma listdir_next_google_store:
  assumes "http_google env = store_google" "is_google_path env P" "add_slash P = P"
    and "google_split_url env P = (b, d)" "d \<noteq> ''''" "buckets (net w) b = Some keys"
  shows "\<exists>r w'. listdir_next (Suc pages) env P w = Some (r, w') \<and> net w' = net w
           \<and> (if \<not> (\<exists>k \<in> set keys. starts_with d k) then r = Inl FileNotFoundError
              else \<exists>x. r = Inr x \<and> (x = None \<longleftrightarrow> (\<forall>k \<in> set keys. starts_with d k \<longrightarrow> k = d)))"
proof -
  from exists_google_store [OF assms] obtain w1 where
    e: "exists env P w = (Inr (\<exists>k \<in> set keys. starts_with d k), w1)" and n1: "net w1 = net w"
    by blast
  show ?thesis
  proof (cases "\<exists>k \<in> set keys. starts_with d k")
    case False
    with e n1 assms(3) show ?thesis by (simp add: listdir_next_def)
  next
    case True
    from isdir_google_store [OF assms(1,2,3,4,5), of w1 keys] assms(6) n1 obtain w2 where
      i: "isdir env P w1 = (Inr (\<exists>k \<in> set keys. starts_with d k), w2)" and n2: "net w2 = net w"
      by auto
    from list_suffixes_google_store [OF assms(1,2,4), of w2 keys pages] assms(6) n2
    obtain x w3 where
      l: "list_suffixes_next (Suc pages) env P True w2 = Some (Inr x, w3)" and n3: "net w3 = net w"
      and x: "x = None \<longleftrightarrow> (\<forall>k \<in> set keys. starts_with d k \<longrightarrow> k = d)"
      by auto
    from e i l True assms(2,3) have "listdir_next (Suc pages) env P w = Some (Inr x, w3)"
      by (simp add: listdir_next_def is_local_path_def)
    with n3 x True show ?thesis by auto
  qed
qed

lemma listdir_next_azure_store:
  assumes "http_azure env = store_azure" "is_azure_path env P" "\<not> is_google_path env P"
    and "add_slash P = P"
    and "azure_split_url env P = (a, c, d)" "d \<noteq> ''''" "containers (net w) (a, c) = Some keys"
  shows "\<exists>r w'. listdir_next (Suc pages) env P w = Some (r, w') \<and> net w' = net w
           \<and> (if \<not> (\<exists>k \<in> set keys. starts_with d k) then r = Inl FileNotFoundError
              else \<exists>x. r = Inr x \<and> (x = None \<longleftrightarrow> (\<forall>k \<in> set keys. starts_with d k \<longrightarrow> k = d)))"
proof -
  from exists_azure_store [OF assms] obtain w1 where
    e: "exists env P w = (Inr (\<exists>k \<in> set keys. starts_with d k), w1)" and n1: "net w1 = net w"
    by blast
  show ?thesis
  proof (cases "\<exists>k \<in> set keys. starts_with d k")
    case False
    with e n1 assms(4) show ?thesis by (simp add: listdir_next_def)
  next
    case True
    from isdir_azure_store [OF assms(1,2,3,4,5,6), of w1 keys] assms(7) n1 obtain w2 where
      i: "isdir env P w1 = (Inr (\<exists>k \<in> set keys. starts_with d k), w2)" and n2: "net w2 = net w"
      by auto
    from list_suffixes_azure_store [OF assms(1,2,3,5), of w2 keys pages] assms(7) n2
    obtain x w3 where
      l: "list_suffixes_next (Suc pages) env P True w2 = Some (Inr x, w3)" and n3: "net w3 = net w"
      and x: "x = None \<longleftrightarrow> (\<forall>k \<in> set keys. starts_with d k \<longrightarrow> k = d)"
      by auto
    from e i l True assms(2,3,4) have "listdir_next (Suc pages) env P w = Some (Inr x, w3)"
      by (simp add: listdir_next_def is_local_path_def)
    with n3 x True show ?thesis by auto
  qed
qed

lemma rmdir_after_listdir:
  assumes "\<not> is_local_path env p" "is_google_path env (add_slash p) \<or> is_azure_path env (add_slash p)"
    and "remote_key env (add_slash p) = Some d" "d \<noteq> ''''"
  shows "rmdir pages env p w =
         (case listdir_next pages env (add_slash p) w of
            None \<Rightarrow> None
          | Some (Inl FileNotFoundError, w') \<Rightarrow> Some (None, w')
          | Some (Inl err, w') \<Rightarrow> Some (Some err, w')
          | Some (Inr (Some name), w') \<Rightarrow> Some (Some OSError, w')
          | Some (Inr None, w') \<Rightarrow> Some (delete_marker env (add_slash p) w'))"
  using assms by (auto simp: rmdir_def remote_key_def Let_def split: if_splits)

lemma removeAll_no_prefix:
  "empty_directory d keys \<Longrightarrow> \<not> (\<exists>k \<in> set (removeAll d keys). starts_with d k)"
  by (auto simp: empty_directory_def)

lemma rmdir_store_cases:
  assumes servers: "http_google env = store_google" "http_azure env = store_azure"
    and cloud: "\<not> is_local_path env p" "url_scheme env (add_slash p) = url_scheme env p"
    and key: "remote_key env (add_slash p) = Some d" "d \<noteq> ''''"
    and keys: "remote_keys env (add_slash p) (net w) = Some keys"
  shows "\<exists>w'. rmdir (Suc pages) env p w =
               Some (if nonempty_directory d keys then Some OSError else None, w')
           \<and> remote_keys env (add_slash p) (net w') =
               Some (if empty_directory d keys then removeAll d keys else keys)
           \<and> (\<not> empty_directory d keys \<longrightarrow> net w' = net w)"
proof -
  let ?P = "add_slash p"
  have P: "add_slash ?P = ?P" by (rule add_slash_idem)
  have ga: "is_google_path env ?P \<or> is_azure_path env ?P"
    using cloud by (auto simp: is_local_path_def is_google_path_def is_azure_path_def)
  note rm = rmdir_after_listdir [OF cloud(1) ga key, of "Suc pages" w]
  have ld: "\<exists>r w'. listdir_next (Suc pages) env ?P w = Some (r, w') \<and> net w' = net w
           \<and> (if \<not> (\<exists>k \<in> set keys. starts_with d k) then r = Inl FileNotFoundError
              else \<exists>x. r = Inr x \<and> (x = None \<longleftrightarrow> (\<forall>k \<in> set keys. starts_with d k \<longrightarrow> k = d)))"
  proof (cases "is_google_path env ?P")
    case True
    obtain b where sp: "google_split_url env ?P = (b, d)"
      using key True by (cases "google_split_url env ?P") (simp add: remote_key_def)
    have "buckets (net w) b = Some keys" using keys True sp by (simp add: remote_keys_def)
    from listdir_next_google_store [OF servers(1) True P sp key(2) this] show ?thesis .
  next
    case False
    with ga have az: "is_azure_path env ?P" by simp
    obtain a c where sp: "azure_split_url env ?P = (a, c, d)"
      using key False az by (cases "azure_split_url env ?P") (simp add: remote_key_def)
    have "containers (net w) (a, c) = Some keys" using keys False az sp by (simp add: remote_keys_def)
    from listdir_next_azure_store [OF servers(2) az False P sp key(2) this] show ?thesis .
  qed
  then obtain r w1 where
    l: "listdir_next (Suc pages) env ?P w = Some (r, w1)" and n1: "net w1 = net w"
    and r: "if \<not> (\<exists>k \<in> set keys. starts_with d k) then r = Inl FileNotFoundError
            else \<exists>x. r = Inr x \<and> (x = None \<longleftrightarrow> (\<forall>k \<in> set keys. starts_with d k \<longrightarrow> k = d))"
    by blast
  show ?thesis
  proof (cases "\<exists>k \<in> set keys. starts_with d k")
    case False
    then have "\<not> nonempty_directory d keys" "\<not> empty_directory d keys"
      by (auto simp: nonempty_directory_def empty_directory_def starts_with_def)
    moreover from False r have "r = Inl FileNotFoundError" by simp
    ultimately show ?thesis using rm l n1 keys by simp
  next
    case True
    with r obtain x where x: "r = Inr x" "x = None \<longleftrightarrow> (\<forall>k \<in> set keys. starts_with d k \<longrightarrow> k = d)"
      by auto
    show ?thesis
    proof (cases x)
      case (Some name)
      with x True have "nonempty_directory d keys" "\<not> empty_directory d keys"
        by (auto simp: nonempty_directory_def empty_directory_def)
      then show ?thesis using rm l n1 keys x Some by simp
    next
      case None
      with x True have emp: "empty_directory d keys" and ne: "\<not> nonempty_directory d keys"
        by (auto simp: nonempty_directory_def empty_directory_def)
      then have dk: "d \<in> set keys" by (simp add: empty_directory_def)
      have "\<exists>w'. delete_marker env ?P w1 = (None, w')
              \<and> remote_keys env ?P (net w') = Some (removeAll d keys)"
      proof (cases "is_google_path env ?P")
        case True
        obtain b where sp: "google_split_url env ?P = (b, d)"
          using key True by (cases "google_split_url env ?P") (simp add: remote_key_def)
        have "buckets (net w1) b = Some keys" using keys True sp n1 by (simp add: remote_keys_def)
        from delete_marker_google_store [OF servers(1) True sp this dk] True sp
        show ?thesis by (auto simp: remote_keys_def)
      next
        case False
        with ga have az: "is_azure_path env ?P" by simp
        obtain a c where sp: "azure_split_url env ?P = (a, c, d)"
          using key False az by (cases "azure_split_url env ?P") (simp add: remote_key_def)
        have "containers (net w1) (a, c) = Some keys"
          using keys False az sp n1 by (simp add: remote_keys_def)
        from delete_marker_azure_store [OF servers(2) az False sp this dk] False az sp
        show ?thesis by (auto simp: remote_keys_def)
      qed
      then show ?thesis using rm l x None emp ne by auto
    qed
  qed
qed

subsection \<open>\<open>rmdir\<close>\<close>

text \<open>
  C8. For a cloud path whose key is empty (a bucket or container root), \<open>rmdir\<close>
  raises, whatever the store holds. Against the object store, for a path with a
  key \<open>d\<close> (after the slash is added): if \<open>d\<close> is an empty directory (the marker \<open>d\<close> is
  the only key starting with \<open>d\<close>), \<open>rmdir\<close> returns, the marker is gone, and a second
  \<open>rmdir\<close> returns as well and leaves the store as it is; if another key starts
  with \<open>d\<close>, \<open>rmdir\<close> raises \<open>OSError\<close> and leaves the store as it is. One page of
  listing is all it needs.
\<close>

theorem rmdir_twice_on_empty_raises_on_nonempty:
  assumes servers: "http_google env = store_google" "http_azure env = store_azure"
    and cloud: "\<not> is_local_path env p" "url_scheme env (add_slash p) = url_scheme env p"
    and key: "remote_key env (add_slash p) = Some d"
  shows "(d = '''' \<longrightarrow>
            rmdir pages env p w = Some (Some (cannot_delete_bucket (add_slash p)), w))
         \<and> (d \<noteq> '''' \<and> remote_keys env (add_slash p) (net w) = Some keys
              \<and> empty_directory d keys \<longrightarrow>
            (\<exists>w1 w2. rmdir (Suc pages) env p w = Some (None, w1)
                \<and> remote_keys env (add_slash p) (net w1) = Some (removeAll d keys)
                \<and> rmdir (Suc pages) env p w1 = Some (None, w2) \<and> net w2 = net w1))
         \<and> (d \<noteq> '''' \<and> remote_keys env (add_slash p) (net w) = Some keys
              \<and> nonempty_directory d keys \<longrightarrow>
            (\<exists>w'. rmdir (Suc pages) env p w = Some (Some OSError, w') \<and> net w' = net w))"
proof (intro conjI impI)
  assume "d = ''''"
  with cloud key show "rmdir pages env p w = Some (Some (cannot_delete_bucket (add_slash p)), w)"
    by (auto simp: rmdir_def remote_key_def Let_def is_local_path_def is_google_path_def
          is_azure_path_def split: if_splits)
next
  assume a: "d \<noteq> '''' \<and> remote_keys env (add_slash p) (net w) = Some keys \<and> empty_directory d keys"
  then have ne: "\<not> nonempty_directory d keys"
    by (auto simp: empty_directory_def nonempty_directory_def)
  from rmdir_store_cases [OF servers cloud key, of w keys pages] a ne obtain w1 where
    1: "rmdir (Suc pages) env p w = Some (None, w1)"
       "remote_keys env (add_slash p) (net w1) = Some (removeAll d keys)"
    by auto
  have gone: "\<not> empty_directory d (removeAll d keys)" "\<not> nonempty_directory d (removeAll d keys)"
    using removeAll_no_prefix [of d keys] a
    by (auto simp: empty_directory_def nonempty_directory_def)
  from rmdir_store_cases [OF servers cloud key, of w1 "removeAll d keys" pages] a 1(2) gone
  obtain w2 where "rmdir (Suc pages) env p w1 = Some (None, w2)" "net w2 = net w1"
    by auto
  with 1 show "\<exists>w1 w2. rmdir (Suc pages) env p w = Some (None, w1)
                \<and> remote_keys env (add_slash p) (net w1) = Some (removeAll d keys)
                \<and> rmdir (Suc pages) env p w1 = Some (None, w2) \<and> net w2 = net w1"
    by blast
next
  assume a: "d \<noteq> '''' \<and> remote_keys env (add_slash p) (net w) = Some keys
             \<and> nonempty_directory d keys"
  then have "\<not> empty_directory d keys"
    by (auto simp: empty_directory_def nonempty_directory_def)
  with rmdir_store_cases [OF servers cloud key, of w keys pages] a
  show "\<exists>w'. rmdir (Suc pages) env p w = Some (Some OSError, w') \<and> net w' = net w"
    by auto
qed

lemma example_paths:
  "is_google_path store_env ''gs://bucket/dir''" "is_google_path store_env ''gs://bucket/dir/''"
  "is_google_path store_env ''gs://bucket/other''" "is_google_path store_env ''gs://bucket/other/''"
  "is_google_path store_env ''gs://bucket''" "is_google_path store_env ''gs://bucket/''"
  "google_split_url store_env ''gs://bucket/dir/'' = (''bucket'', ''dir/'')"
  "google_split_url store_env ''gs://bucket/other/'' = (''bucket'', ''other/'')"
  "google_split_url store_env ''gs://bucket/'' = (''bucket'', '''')"
  "\<not> is_google_path store_env ''as://account-container/dir''"
  "\<not> is_google_path store_env ''as://account-container/dir/''"
  "is_azure_path store_env ''as://account-container/dir''"
  "is_azure_path store_env ''as://account-container/dir/''"
  "azure_split_url store_env ''as://account-container/dir/'' = (''account'', ''container'', ''dir/'')"
  by (simp_all add: store_env_def is_google_path_def is_azure_path_def simple_scheme_def
        simple_google_split_url_def simple_azure_split_url_def Let_def)

theorem rmdir_twice_on_empty_raises_on_nonempty_witness:
  "rmdir 0 store_env ''gs://bucket'' example_world =
     Some (Some (cannot_delete_bucket ''gs://bucket/''), example_world)
   \<and> (\<exists>w1 w2. rmdir (Suc 0) store_env ''as://account-container/dir'' example_world = Some (None, w1)
         \<and> remote_keys store_env ''as://account-container/dir/'' (net w1) = Some [''other/file'']
         \<and> rmdir (Suc 0) store_env ''as://account-container/dir'' w1 = Some (None, w2)
         \<and> net w2 = net w1)
   \<and> (\<exists>w'. rmdir (Suc 0) store_env ''gs://bucket/other'' example_world = Some (Some OSError, w')
         \<and> net w' = net example_world)"
proof -
  have s: "http_google store_env = store_google" "http_azure store_env = store_azure"
    by (simp_all add: store_env_def)
  have 1: "rmdir 0 store_env ''gs://bucket'' example_world =
     Some (Some (cannot_delete_bucket ''gs://bucket/''), example_world)"
    using rmdir_twice_on_empty_raises_on_nonempty
      [OF s, of "''gs://bucket''" "''''" 0 example_world "[]"] example_paths
    by (simp add: is_local_path_def remote_key_def add_slash_def ends_with_slash_def
          is_google_path_def)
  have 2: "\<exists>w1 w2. rmdir (Suc 0) store_env ''as://account-container/dir'' example_world = Some (None, w1)
         \<and> remote_keys store_env ''as://account-container/dir/'' (net w1) = Some [''other/file'']
         \<and> rmdir (Suc 0) store_env ''as://account-container/dir'' w1 = Some (None, w2)
         \<and> net w2 = net w1"
    using rmdir_twice_on_empty_raises_on_nonempty
      [OF s, of "''as://account-container/dir''" "''dir/''" 0 example_world
         "[''dir/'', ''other/file'']"] example_paths
    by (simp add: is_local_path_def remote_key_def remote_keys_def add_slash_def
          ends_with_slash_def is_google_path_def is_azure_path_def example_world_def
          empty_directory_def starts_with_def)
  have 3: "\<exists>w'. rmdir (Suc 0) store_env ''gs://bucket/other'' example_world = Some (Some OSError, w')
         \<and> net w' = net example_world"
    using rmdir_twice_on_empty_raises_on_nonempty
      [OF s, of "''gs://bucket/other''" "''other/''" 0 example_world
         "[''dir/'', ''other/file'']"] example_paths
    by (simp add: is_local_path_def remote_key_def remote_keys_def add_slash_def
          ends_with_slash_def is_google_path_def is_azure_path_def example_world_def
          nonempty_directory_def starts_with_def)
  from 1 2 3 show ?thesis by blast
qed

subsection \<open>\<open>BlobFile\<close> and \<open>copy\<close>\<close>

text \<open>
  C10. For a path that ends in a slash \<open>BlobFile\<close> fails on its first statement, the
  assertion, for every mode (the read modes as well as the write modes and any
  other text) and every buffer size; the world is untouched, so no request has
  been sent and no local file opened.
\<close>

theorem BlobFile_slash_fails_for_every_mode:
  assumes "ends_with_slash path"
  shows "BlobFile env path mode buffer_size w = (Inl AssertionError, w)"
  using assms by (simp add: BlobFile_def)

theorem BlobFile_slash_fails_for_every_mode_witness:
  "ends_with_slash ''gs://bucket/dir/''
   \<and> BlobFile store_env ''gs://bucket/dir/'' ''rb'' DEFAULT_BUFFER_SIZE example_world
       = (Inl AssertionError, example_world)
   \<and> BlobFile store_env ''gs://bucket/dir/'' ''r'' DEFAULT_BUFFER_SIZE example_world
       = (Inl AssertionError, example_world)
   \<and> BlobFile store_env ''gs://bucket/dir/'' ''wb'' DEFAULT_BUFFER_SIZE example_world
       = (Inl AssertionError, example_world)"
proof -
  have e: "ends_with_slash ''gs://bucket/dir/''" by (simp add: ends_with_slash_def)
  show ?thesis
    using e BlobFile_slash_fails_for_every_mode [OF e, of store_env "''rb''" DEFAULT_BUFFER_SIZE example_world]
      BlobFile_slash_fails_for_every_mode [OF e, of store_env "''r''" DEFAULT_BUFFER_SIZE example_world]
      BlobFile_slash_fails_for_every_mode [OF e, of store_env "''wb''" DEFAULT_BUFFER_SIZE example_world]
    by simp
qed

lemma execute_google_sent:
  "execute_google_api_request env req w = (r, w') \<Longrightarrow> sent w' = sent w @ [req]"
  by (auto simp: execute_google_api_request_def split: prod.splits)

lemma execute_azure_sent:
  "execute_azure_api_request env req w = (r, w') \<Longrightarrow> sent w' = sent w @ [req]"
  by (auto simp: execute_azure_api_request_def split: prod.splits)

lemma google_isfile_reads:
  assumes "google_isfile env path w = (r, w')"
  shows "\<exists>rs. sent w' = sent w @ rs \<and> reads_only rs"
proof (cases "snd (google_split_url env path) = ''''")
  case True
  with assms have "w' = w" by (auto simp: google_isfile_def split: prod.splits)
  then show ?thesis by (simp add: reads_only_def)
next
  case False
  obtain b d where sp: "google_split_url env path = (b, d)" by (cases "google_split_url env path")
  obtain r1 w1 where
    ex: "execute_google_api_request env (simple_request ''GET'' (google_object_url b d) []) w = (r1, w1)"
    by (cases "execute_google_api_request env (simple_request ''GET'' (google_object_url b d) []) w")
  have "w' = w1" using assms sp False ex
    by (auto simp: google_isfile_def split: sum.splits if_splits)
  with execute_google_sent [OF ex]
  have "sent w' = sent w @ [simple_request ''GET'' (google_object_url b d) []]" by simp
  moreover have "reads_only [simple_request ''GET'' (google_object_url b d) []]"
    by (simp add: reads_only_def simple_request_def)
  ultimately show ?thesis by blast
qed

lemma azure_isfile_reads:
  assumes "azure_isfile env path w = (r, w')"
  shows "\<exists>rs. sent w' = sent w @ rs \<and> reads_only rs"
proof (cases "snd (snd (azure_split_url env path)) = ''''")
  case True
  with assms have "w' = w" by (auto simp: azure_isfile_def split: prod.splits)
  then show ?thesis by (simp add: reads_only_def)
next
  case False
  obtain a c d where sp: "azure_split_url env path = (a, c, d)"
    by (cases "azure_split_url env path")
  obtain r1 w1 where
    ex: "execute_azure_api_request env (simple_request ''HEAD'' (azure_blob_url a c d) []) w = (r1, w1)"
    by (cases "execute_azure_api_request env (simple_request ''HEAD'' (azure_blob_url a c d) []) w")
  have "w' = w1" using assms sp False ex
    by (auto simp: azure_isfile_def split: sum.splits if_splits)
  with execute_azure_sent [OF ex]
  have "sent w' = sent w @ [simple_request ''HEAD'' (azure_blob_url a c d) []]" by simp
  moreover have "reads_only [simple_request ''HEAD'' (azure_blob_url a c d) []]"
    by (simp add: reads_only_def simple_request_def)
  ultimately show ?thesis by blast
qed

lemma isdir_sends_one_get:
  "isdir env path w = (r, w') \<Longrightarrow>
     w' = w \<or> (\<exists>req. http_method req = ''GET'' \<and> sent w' = sent w @ [req])"
  by (auto simp: isdir_def Let_def execute_google_api_request_def execute_azure_api_request_def
        simple_request_def split: if_splits prod.splits sum.splits)

lemma isdir_reads:
  assumes "isdir env path w = (r, w')"
  shows "\<exists>rs. sent w' = sent w @ rs \<and> reads_only rs"
proof -
  from isdir_sends_one_get [OF assms] show ?thesis
  proof
    assume "w' = w"
    then have "sent w' = sent w @ [] \<and> reads_only []" by (simp add: reads_only_def)
    then show ?thesis by blast
  next
    assume "\<exists>req. http_method req = ''GET'' \<and> sent w' = sent w @ [req]"
    then obtain req where "http_method req = ''GET''" "sent w' = sent w @ [req]" by blast
    then have "sent w' = sent w @ [req] \<and> reads_only [req]" by (simp add: reads_only_def)
    then show ?thesis by blast
  qed
qed

lemma reads_only_append:
  "sent w1 = sent w @ rs1 \<Longrightarrow> reads_only rs1 \<Longrightarrow> sent w2 = sent w1 @ rs2 \<Longrightarrow> reads_only rs2
   \<Longrightarrow> \<exists>rs. sent w2 = sent w @ rs \<and> reads_only rs"
  by (rule exI [of _ "rs1 @ rs2"]) (simp add: reads_only_def)

lemma exists_reads:
  assumes "exists env path w = (r, w')"
  shows "\<exists>rs. sent w' = sent w @ rs \<and> reads_only rs"
proof -
  have none: "\<exists>rs. sent w = sent w @ rs \<and> reads_only rs"
    by (rule exI [of _ "[]"]) (simp add: reads_only_def)
  show ?thesis
  proof (cases "is_local_path env path")
    case True
    with assms none show ?thesis by (auto simp: exists_def)
  next
    case False
    show ?thesis
    proof (cases "is_google_path env path")
      case True
      obtain r1 w1 where f: "google_isfile env path w = (r1, w1)"
        by (cases "google_isfile env path w")
      from google_isfile_reads [OF f] obtain rs1 where
        1: "sent w1 = sent w @ rs1" "reads_only rs1" by blast
      show ?thesis
      proof (cases "\<exists>md. r1 = Inr (False, md)")
        case False
        then have "w' = w1" using assms f True \<open>\<not> is_local_path env path\<close>
          by (auto simp: exists_def split: sum.splits prod.splits if_splits)
        with 1 show ?thesis by blast
      next
        case True
        then have "isdir env path w1 = (r, w')" using assms f \<open>is_google_path env path\<close>
            \<open>\<not> is_local_path env path\<close>
          by (auto simp: exists_def)
        from isdir_reads [OF this] obtain rs2 where "sent w' = sent w1 @ rs2" "reads_only rs2"
          by blast
        with 1 show ?thesis by (rule reads_only_append)
      qed
    next
      case False
      then have az: "is_azure_path env path" using \<open>\<not> is_local_path env path\<close>
        by (simp add: is_local_path_def)
      obtain r1 w1 where f: "azure_isfile env path w = (r1, w1)"
        by (cases "azure_isfile env path w")
      from azure_isfile_reads [OF f] obtain rs1 where
        1: "sent w1 = sent w @ rs1" "reads_only rs1" by blast
      show ?thesis
      proof (cases "\<exists>md. r1 = Inr (False, md)")
        case False
        then have "w' = w1" using assms f az \<open>\<not> is_google_path env path\<close>
            \<open>\<not> is_local_path env path\<close>
          by (auto simp: exists_def split: sum.splits prod.splits if_splits)
        with 1 show ?thesis by blast
      next
        case True
        then have "isdir env path w1 = (r, w')" using assms f az \<open>\<not> is_google_path env path\<close>
            \<open>\<not> is_local_path env path\<close>
          by (auto simp: exists_def)
        from isdir_reads [OF this] obtain rs2 where "sent w' = sent w1 @ rs2" "reads_only rs2"
          by blast
        with 1 show ?thesis by (rule reads_only_append)
      qed
    qed
  qed
qed

text \<open>
  C9. With \<open>overwrite=False\<close>, whenever \<open>exists(dst)\<close> answers true, \<open>copy\<close> raises
  \<open>FileExistsError\<close> and the world is the one that \<open>exists\<close> left: whatever the source,
  the paths' clouds, the MD5 flag and the rest of \<open>copy\<close> would do, none of it has
  run. What \<open>exists\<close> sent are GET and HEAD requests only, so no rewrite, no copy
  PUT, no upload session and no byte have gone out.
\<close>

theorem copy_fails_fast_when_destination_exists:
  assumes "exists env dst w = (Inr True, w')"
  shows "copy turns env tr src dst False return_md5 w = Some (Inl FileExistsError, w')
         \<and> (\<exists>rs. sent w' = sent w @ rs \<and> reads_only rs)"
  using assms exists_reads [OF assms] by (simp add: copy_def)

theorem copy_fails_fast_when_destination_exists_witness:
  "(\<exists>w'. exists store_env ''gs://bucket/other/file'' example_world = (Inr True, w')
      \<and> copy 0 store_env no_transfer ''gs://bucket/dir/x'' ''gs://bucket/other/file'' False True example_world
          = Some (Inl FileExistsError, w')
      \<and> net w' = net example_world
      \<and> (\<exists>rs. sent w' = sent example_world @ rs \<and> reads_only rs))"
proof -
  have p: "is_google_path store_env ''gs://bucket/other/file''"
    "google_split_url store_env ''gs://bucket/other/file'' = (''bucket'', ''other/file'')"
    by (simp_all add: store_env_def is_google_path_def simple_scheme_def
          simple_google_split_url_def Let_def)
  have s: "http_google store_env = store_google" by (simp add: store_env_def)
  have "buckets (net example_world) ''bucket'' = Some [''dir/'', ''other/file'']"
    by (simp add: example_world_def)
  from google_isfile_store [OF s p(2) _ this] obtain w1 where
    f: "google_isfile store_env ''gs://bucket/other/file'' example_world = (Inr (True, Map.empty), w1)"
    and n: "net w1 = net example_world"
    by auto
  then have e: "exists store_env ''gs://bucket/other/file'' example_world = (Inr True, w1)"
    using p(1) by (simp add: exists_def is_local_path_def)
  from copy_fails_fast_when_destination_exists [OF e, of 0 no_transfer "''gs://bucket/dir/x''" True] e n
  show ?thesis by blast
qed

end
